theory Spec2Isabelle
  imports Main
begin

section \<open>JavaScript values\<close>

text \<open>
  The payment server is an Express application (app.js). The values it handles are the
  ones that \<open>body-parser\<close> (form-encoded or JSON request bodies) and \<open>JSON.parse\<close>
  produce, together with \<open>undefined\<close> for a property that is absent. A value of type
  \<open>json\<close> is such a parsed value; \<open>undefined\<close> is \<open>None\<close> of \<open>json option\<close>.

  Strings are byte strings (UTF-8). Numbers are the integers, written in decimal as
  JavaScript writes an integer below \<open>10\<^sup>2\<^sup>1\<close>; a number with a fractional part has no
  counterpart in this model. An object is the list of its properties in insertion order;
  where a name occurs twice the later entry is the property's value.

  The model is that of the values a payment callback and an approval reply carry, and
  it stops short of JavaScript in three places. From \<open>10\<^sup>2\<^sup>1\<close> on JavaScript writes a
  number with an exponent, and \<open>number_to_string\<close> writes all its digits; the clock of
  \<open>new Date().getTime()\<close> is far below. An integer beyond \<open>2\<^sup>5\<^sup>3\<close> is kept exact, where
  JavaScript rounds it to a double. \<open>JSON_parse\<close> refuses a text with a fractional number
  or with an escaped surrogate pair, which \<open>JSON.parse\<close> reads.
\<close>

datatype json =
    JNull
  | JBool bool
  | JNum int
  | JStr string
  | JArr "json list"
  | JObj "(string \<times> json) list"

type_synonym jsval = "json option"

datatype js_exn = TypeError | SyntaxError

text \<open>An \<open>Error\<close> object, as the request library passes it to a callback, with its message.\<close>

datatype js_error = JsError string

abbreviation dquote :: char where "dquote \<equiv> CHR 0x22"
abbreviation bslash :: char where "bslash \<equiv> CHR 0x5C"

subsection \<open>Property access, truthiness, \<open>||\<close>\<close>

definition get_prop :: "(string \<times> json) list \<Rightarrow> string \<Rightarrow> jsval" where
  "get_prop fs k = map_of (rev fs) k"

text \<open>
  \<open>v.k\<close> for a value \<open>v\<close> that is not \<open>null\<close>, and a name \<open>k\<close> that no prototype defines
  (the handler reads resultCode, resultMsg, tid, MOID, TotPrice, goodName, applDate and
  applTime): only an object can have it. On \<open>null\<close> the access raises a TypeError, which
  the caller checks first.
\<close>

fun get_member :: "json \<Rightarrow> string \<Rightarrow> jsval" where
  "get_member (JObj fs) k = get_prop fs k"
| "get_member v k = None"

fun truthy :: "jsval \<Rightarrow> bool" where
  "truthy None = False"
| "truthy (Some JNull) = False"
| "truthy (Some (JBool b)) = b"
| "truthy (Some (JNum n)) = (n \<noteq> 0)"
| "truthy (Some (JStr s)) = (s \<noteq> [])"
| "truthy (Some (JArr xs)) = True"
| "truthy (Some (JObj fs)) = True"

definition js_or :: "jsval \<Rightarrow> jsval \<Rightarrow> jsval" where
  "js_or a b = (if truthy a then a else b)"

subsection \<open>Conversion to string\<close>

definition hex_char :: "nat \<Rightarrow> char" where
  "hex_char d = ''0123456789abcdef'' ! d"

fun nat_digits :: "nat \<Rightarrow> string" where
  "nat_digits n =
     (if n < 10 then [hex_char n]
      else nat_digits (n div 10) @ [hex_char (n mod 10)])"

declare nat_digits.simps [simp del]

definition number_to_string :: "int \<Rightarrow> string" where
  "number_to_string i =
     (if i < 0 then CHR ''-'' # nat_digits (nat (- i)) else nat_digits (nat i))"

text \<open>
  ToString, as string concatenation with \<open>+\<close> and template literals apply it. An array is
  joined with commas, \<open>null\<close> elements giving the empty string. A plain object gives
  \<open>[object Object]\<close> through the inherited \<open>toString\<close>; an object parsed from JSON that has
  an own property named \<open>toString\<close> hides the inherited method behind a value that is not
  callable, and the conversion raises a TypeError.
\<close>

fun to_string :: "json \<Rightarrow> js_exn + string"
  and join_elems :: "json list \<Rightarrow> js_exn + string" where
  "to_string JNull = Inr ''null''"
| "to_string (JBool b) = Inr (if b then ''true'' else ''false'')"
| "to_string (JNum n) = Inr (number_to_string n)"
| "to_string (JStr s) = Inr s"
| "to_string (JArr xs) = join_elems xs"
| "to_string (JObj fs) =
     (if ''toString'' \<in> set (map fst fs) then Inl TypeError else Inr ''[object Object]'')"
| "join_elems [] = Inr []"
| "join_elems (x # xs) =
     (case (if x = JNull then Inr [] else to_string x) of
        Inl e \<Rightarrow> Inl e
      | Inr s \<Rightarrow>
          (case xs of
             [] \<Rightarrow> Inr s
           | y # ys \<Rightarrow>
               (case join_elems xs of
                  Inl e \<Rightarrow> Inl e
                | Inr t \<Rightarrow> Inr (s @ '','' @ t))))"

definition to_string_val :: "jsval \<Rightarrow> js_exn + string" where
  "to_string_val v = (case v of None \<Rightarrow> Inr ''undefined'' | Some j \<Rightarrow> to_string j)"

definition url_to_string :: "string option \<Rightarrow> string" where
  "url_to_string u = (case u of None \<Rightarrow> ''undefined'' | Some s \<Rightarrow> s)"

definition error_to_string :: "js_error \<Rightarrow> string" where
  "error_to_string e =
     (case e of JsError m \<Rightarrow> if m = [] then ''Error'' else ''Error: '' @ m)"

subsection \<open>Loose equality against a registry value\<close>

text \<open>
  \<open>a == b\<close> where \<open>b\<close> is what the endpoint registry returned: a string, or \<open>undefined\<close>
  (\<open>None\<close>). \<open>undefined\<close> equals \<open>undefined\<close> and \<open>null\<close> only. Against a string, a string
  is compared as it is, an array or object through its conversion to string (which may
  raise), a number or boolean through the runtime's conversion of the string to a number,
  \<open>to_number\<close>, which is a parameter here (its result is \<open>None\<close> when the string denotes
  no integer).
\<close>

fun loose_eq :: "(string \<Rightarrow> int option) \<Rightarrow> jsval \<Rightarrow> string option \<Rightarrow> js_exn + bool" where
  "loose_eq to_number None None = Inr True"
| "loose_eq to_number (Some JNull) None = Inr True"
| "loose_eq to_number (Some v) None = Inr False"
| "loose_eq to_number None (Some s) = Inr False"
| "loose_eq to_number (Some JNull) (Some s) = Inr False"
| "loose_eq to_number (Some (JBool b)) (Some s) = Inr (to_number s = Some (if b then 1 else 0))"
| "loose_eq to_number (Some (JNum n)) (Some s) = Inr (to_number s = Some n)"
| "loose_eq to_number (Some (JStr a)) (Some s) = Inr (a = s)"
| "loose_eq to_number (Some v) (Some s) =
     (case to_string v of Inl e \<Rightarrow> Inl e | Inr t \<Rightarrow> Inr (t = s))"

section \<open>JSON.stringify and JSON.parse\<close>

definition escape_char :: "char \<Rightarrow> string" where
  "escape_char c =
     (if c = CHR 0x08 then [bslash, CHR ''b'']
      else if c = CHR 0x09 then [bslash, CHR ''t'']
      else if c = CHR 0x0A then [bslash, CHR ''n'']
      else if c = CHR 0x0C then [bslash, CHR ''f'']
      else if c = CHR 0x0D then [bslash, CHR ''r'']
      else if c = dquote then [bslash, dquote]
      else if c = bslash then [bslash, bslash]
      else if (of_char c :: nat) < 32
        then [bslash, CHR ''u'', CHR ''0'', CHR ''0'',
              hex_char (of_char c div 16), hex_char (of_char c mod 16)]
      else [c])"

definition quote_json_string :: "string \<Rightarrow> string" where
  "quote_json_string s = dquote # concat (map escape_char s) @ [dquote]"

fun serialize :: "json \<Rightarrow> string"
  and serialize_elems :: "json list \<Rightarrow> string"
  and serialize_members :: "(string \<times> json) list \<Rightarrow> string" where
  "serialize JNull = ''null''"
| "serialize (JBool b) = (if b then ''true'' else ''false'')"
| "serialize (JNum n) = number_to_string n"
| "serialize (JStr s) = quote_json_string s"
| "serialize (JArr []) = ''[]''"
| "serialize (JArr (x # xs)) = CHR ''['' # serialize x @ serialize_elems xs"
| "serialize (JObj []) = ''{}''"
| "serialize (JObj ((k, v) # fs)) =
     CHR ''{'' # quote_json_string k @ CHR '':'' # serialize v @ serialize_members fs"
| "serialize_elems [] = '']''"
| "serialize_elems (x # xs) = CHR '','' # serialize x @ serialize_elems xs"
| "serialize_members [] = ''}''"
| "serialize_members ((k, v) # fs) =
     CHR '','' # quote_json_string k @ CHR '':'' # serialize v @ serialize_members fs"

text \<open>\<open>JSON.stringify(v)\<close>: \<open>undefined\<close> for \<open>undefined\<close>, the JSON text otherwise.\<close>

definition JSON_stringify :: "jsval \<Rightarrow> string option" where
  "JSON_stringify v = map_option serialize v"

definition is_digit :: "char \<Rightarrow> bool" where
  "is_digit c = (48 \<le> (of_char c :: nat) \<and> (of_char c :: nat) \<le> 57)"

definition digit_val :: "char \<Rightarrow> nat" where
  "digit_val c = of_char c - 48"

definition digits_val :: "string \<Rightarrow> nat" where
  "digits_val ds = foldl (\<lambda>a c. 10 * a + digit_val c) 0 ds"

definition is_json_ws :: "char \<Rightarrow> bool" where
  "is_json_ws c = (c = CHR '' '' \<or> c = CHR 0x09 \<or> c = CHR 0x0A \<or> c = CHR 0x0D)"

definition skip_ws :: "string \<Rightarrow> string" where
  "skip_ws = dropWhile is_json_ws"

definition hex_val :: "char \<Rightarrow> nat option" where
  "hex_val c =
     (let n = (of_char c :: nat) in
      if 48 \<le> n \<and> n \<le> 57 then Some (n - 48)
      else if 97 \<le> n \<and> n \<le> 102 then Some (n - 87)
      else if 65 \<le> n \<and> n \<le> 70 then Some (n - 55)
      else None)"

definition code_unit :: "char \<Rightarrow> char \<Rightarrow> char \<Rightarrow> char \<Rightarrow> nat option" where
  "code_unit h1 h2 h3 h4 =
     (case (hex_val h1, hex_val h2, hex_val h3, hex_val h4) of
        (Some a, Some b, Some c, Some d) \<Rightarrow> Some (((a * 16 + b) * 16 + c) * 16 + d)
      | _ \<Rightarrow> None)"

text \<open>
  The bytes of the character a \<open>\uXXXX\<close> escape names. A surrogate code unit has no UTF-8
  form and is outside the byte-string model.
\<close>

definition utf8_encode :: "nat \<Rightarrow> string option" where
  "utf8_encode n =
     (if n < 0x80 then Some [char_of n]
      else if n < 0x800 then Some [char_of (0xC0 + n div 64), char_of (0x80 + n mod 64)]
      else if 0xD800 \<le> n \<and> n < 0xE000 then None
      else Some [char_of (0xE0 + n div 4096), char_of (0x80 + n div 64 mod 64),
                 char_of (0x80 + n mod 64)])"

definition unescape :: "char \<Rightarrow> char option" where
  "unescape e =
     (if e = dquote then Some dquote
      else if e = bslash then Some bslash
      else if e = CHR ''/'' then Some (CHR ''/'')
      else if e = CHR ''b'' then Some (CHR 0x08)
      else if e = CHR ''f'' then Some (CHR 0x0C)
      else if e = CHR ''n'' then Some (CHR 0x0A)
      else if e = CHR ''r'' then Some (CHR 0x0D)
      else if e = CHR ''t'' then Some (CHR 0x09)
      else None)"

text \<open>The characters of a string literal after its opening quote, up to the closing one.\<close>

fun parse_string_chars :: "string \<Rightarrow> string \<Rightarrow> (string \<times> string) option" where
  "parse_string_chars acc [] = None"
| "parse_string_chars acc (c # cs) =
     (if c = dquote then Some (acc, cs)
      else if c = bslash then
        (case cs of
           [] \<Rightarrow> None
         | e # r \<Rightarrow>
             if e = CHR ''u'' then
               (case r of
                  h1 # h2 # h3 # h4 # r' \<Rightarrow>
                    (case code_unit h1 h2 h3 h4 of
                       None \<Rightarrow> None
                     | Some n \<Rightarrow>
                         (case utf8_encode n of
                            None \<Rightarrow> None
                          | Some bs \<Rightarrow> parse_string_chars (acc @ bs) r'))
                | _ \<Rightarrow> None)
             else
               (case unescape e of
                  None \<Rightarrow> None
                | Some ch \<Rightarrow> parse_string_chars (acc @ [ch]) r))
      else if (of_char c :: nat) < 32 then None
      else parse_string_chars (acc @ [c]) cs)"

definition parse_fraction :: "string \<Rightarrow> (string \<times> string) option" where
  "parse_fraction r =
     (case r of
        [] \<Rightarrow> Some ([], r)
      | c # r' \<Rightarrow>
          if c = CHR ''.'' then
            (if takeWhile is_digit r' = [] then None
             else Some (takeWhile is_digit r', dropWhile is_digit r'))
          else Some ([], r))"

definition parse_exponent :: "string \<Rightarrow> (int \<times> string) option" where
  "parse_exponent r =
     (case r of
        [] \<Rightarrow> Some (0, r)
      | c # r' \<Rightarrow>
          if c = CHR ''e'' \<or> c = CHR ''E'' then
            (let (sg, r'') =
               (case r' of
                  [] \<Rightarrow> (1, r')
                | s # t \<Rightarrow>
                    if s = CHR ''-'' then (- 1, t)
                    else if s = CHR ''+'' then (1, t) else (1, r'))
             in if takeWhile is_digit r'' = [] then None
                else Some (sg * int (digits_val (takeWhile is_digit r'')),
                           dropWhile is_digit r''))
          else Some (0, r))"

text \<open>
  The value \<open>m * 10 ^ e\<close> of a number literal when it is an integer; a literal with
  another value is outside the integer model and is refused.
\<close>

definition decimal_value :: "nat \<Rightarrow> int \<Rightarrow> nat option" where
  "decimal_value m e =
     (if 0 \<le> e then Some (m * 10 ^ nat e)
      else if m mod 10 ^ nat (- e) = 0 then Some (m div 10 ^ nat (- e))
      else None)"

definition parse_unsigned :: "string \<Rightarrow> (nat \<times> string) option" where
  "parse_unsigned u =
     (case u of
        [] \<Rightarrow> None
      | d # r \<Rightarrow>
          if \<not> is_digit d then None
          else
            (let (ip, r1) =
               (if d = CHR ''0'' then ([d], r)
                else (takeWhile is_digit u, dropWhile is_digit u))
             in case parse_fraction r1 of
                  None \<Rightarrow> None
                | Some (fp, r2) \<Rightarrow>
                    (case parse_exponent r2 of
                       None \<Rightarrow> None
                     | Some (ex, r3) \<Rightarrow>
                         (case decimal_value (digits_val (ip @ fp)) (ex - int (length fp)) of
                            None \<Rightarrow> None
                          | Some m \<Rightarrow> Some (m, r3)))))"

definition parse_number :: "string \<Rightarrow> (int \<times> string) option" where
  "parse_number s =
     (case s of
        [] \<Rightarrow> None
      | c # r \<Rightarrow>
          if c = CHR ''-'' then
            (case parse_unsigned r of None \<Rightarrow> None | Some (m, r') \<Rightarrow> Some (- int m, r'))
          else
            (case parse_unsigned s of None \<Rightarrow> None | Some (m, r') \<Rightarrow> Some (int m, r')))"

text \<open>
  The recursive-descent parser. The first argument bounds the depth of the calls. A value
  inside an array or object costs two of them and follows at least one consumed
  character, so \<open>JSON_parse\<close> starts with more than twice the length of the text; a
  larger bound gives the same result (\<open>parse_value_fuel\<close> below).
\<close>

fun parse_value :: "nat \<Rightarrow> string \<Rightarrow> (json \<times> string) option"
  and parse_elems :: "nat \<Rightarrow> json list \<Rightarrow> string \<Rightarrow> (json \<times> string) option"
  and parse_members ::
    "nat \<Rightarrow> (string \<times> json) list \<Rightarrow> string \<Rightarrow> (json \<times> string) option"
  where
  "parse_value 0 s = None"
| "parse_value (Suc n) s =
     (case skip_ws s of
        [] \<Rightarrow> None
      | c # cs \<Rightarrow>
          if c = CHR ''n'' then
            (if take 3 cs = ''ull'' then Some (JNull, drop 3 cs) else None)
          else if c = CHR ''t'' then
            (if take 3 cs = ''rue'' then Some (JBool True, drop 3 cs) else None)
          else if c = CHR ''f'' then
            (if take 4 cs = ''alse'' then Some (JBool False, drop 4 cs) else None)
          else if c = dquote then
            (case parse_string_chars [] cs of
               None \<Rightarrow> None
             | Some (str, r) \<Rightarrow> Some (JStr str, r))
          else if c = CHR ''['' then
            (case skip_ws cs of
               [] \<Rightarrow> None
             | d # r \<Rightarrow> if d = CHR '']'' then Some (JArr [], r) else parse_elems n [] cs)
          else if c = CHR ''{'' then
            (case skip_ws cs of
               [] \<Rightarrow> None
             | d # r \<Rightarrow> if d = CHR ''}'' then Some (JObj [], r) else parse_members n [] cs)
          else
            (case parse_number (c # cs) of
               None \<Rightarrow> None
             | Some (i, r) \<Rightarrow> Some (JNum i, r)))"
| "parse_elems 0 acc s = None"
| "parse_elems (Suc n) acc s =
     (case parse_value n s of
        None \<Rightarrow> None
      | Some (v, r) \<Rightarrow>
          (case skip_ws r of
             [] \<Rightarrow> None
           | d # r' \<Rightarrow>
               if d = CHR '','' then parse_elems n (acc @ [v]) r'
               else if d = CHR '']'' then Some (JArr (acc @ [v]), r')
               else None))"
| "parse_members 0 acc s = None"
| "parse_members (Suc n) acc s =
     (case skip_ws s of
        [] \<Rightarrow> None
      | q # r \<Rightarrow>
          if q \<noteq> dquote then None
          else
            (case parse_string_chars [] r of
               None \<Rightarrow> None
             | Some (k, r1) \<Rightarrow>
                 (case skip_ws r1 of
                    [] \<Rightarrow> None
                  | col # r2 \<Rightarrow>
                      if col \<noteq> CHR '':'' then None
                      else
                        (case parse_value n r2 of
                           None \<Rightarrow> None
                         | Some (v, r3) \<Rightarrow>
                             (case skip_ws r3 of
                                [] \<Rightarrow> None
                              | d # r4 \<Rightarrow>
                                  if d = CHR '','' then parse_members n (acc @ [(k, v)]) r4
                                  else if d = CHR ''}'' then Some (JObj (acc @ [(k, v)]), r4)
                                  else None)))))"

text \<open>\<open>JSON.parse(s)\<close>: the value, or a SyntaxError.\<close>

definition JSON_parse :: "string \<Rightarrow> js_exn + json" where
  "JSON_parse s =
     (case parse_value (Suc (2 * length s)) s of
        None \<Rightarrow> Inl SyntaxError
      | Some (v, r) \<Rightarrow> if skip_ws r = [] then Inr v else Inl SyntaxError)"

subsection \<open>Measures for the proofs about the parser\<close>

text \<open>
  The number of nested calls that parsing the text of a value takes, the characters that
  may follow a value inside a text, and the characters a value's text can begin with.
\<close>

definition num_follow :: "string \<Rightarrow> bool" where
  "num_follow rest =
     (case rest of
        [] \<Rightarrow> True
      | c # cs \<Rightarrow> \<not> is_digit c \<and> c \<noteq> CHR ''.'' \<and> c \<noteq> CHR ''e'' \<and> c \<noteq> CHR ''E'')"

fun fuel_value :: "json \<Rightarrow> nat"
  and fuel_elems :: "json list \<Rightarrow> nat"
  and fuel_members :: "(string \<times> json) list \<Rightarrow> nat" where
  "fuel_value (JArr xs) = Suc (fuel_elems xs)"
| "fuel_value (JObj fs) = Suc (fuel_members fs)"
| "fuel_value v = 1"
| "fuel_elems [] = 0"
| "fuel_elems (x # xs) = Suc (fuel_value x + fuel_elems xs)"
| "fuel_members [] = 0"
| "fuel_members ((k, v) # fs) = Suc (fuel_value v + fuel_members fs)"

definition val_follow :: "string \<Rightarrow> bool" where
  "val_follow rest =
     (case rest of
        [] \<Rightarrow> True
      | c # cs \<Rightarrow> c = CHR '','' \<or> c = CHR '']'' \<or> c = CHR ''}'')"

definition val_start :: "char \<Rightarrow> bool" where
  "val_start c =
     (c = CHR ''n'' \<or> c = CHR ''t'' \<or> c = CHR ''f'' \<or> c = dquote \<or> c = CHR ''['' \<or> c = CHR ''{''
      \<or> c = CHR ''-'' \<or> is_digit c)"

section \<open>The server (app.js)\<close>

subsection \<open>Environment\<close>

text \<open>
  What the handlers read from outside: the environment variables, the clock
  (\<open>new Date().getTime()\<close>), the SHA-256 hex digest of Node's \<open>crypto\<close> module, the runtime's
  conversion of a string to a number, and the two lookups of the \<open>properties\<close> module
  (the endpoint registry), which is not part of the sources at hand: its functions are
  parameters, from the value of \<open>idc_name\<close> to a URL or \<open>undefined\<close>.
\<close>

record env =
  MERCHANT_ID :: "string option"
  SIGN_KEY :: "string option"
  now :: int
  sha256_hex :: "string \<Rightarrow> string"
  string_to_number :: "string \<Rightarrow> int option"
  getAuthUrl :: "jsval \<Rightarrow> string option"
  getNetCancel :: "jsval \<Rightarrow> string option"

text \<open>\<open>process.env.X || default\<close>: an unset or empty variable gives the default.\<close>

definition env_or :: "string option \<Rightarrow> string \<Rightarrow> string" where
  "env_or v d = (case v of None \<Rightarrow> d | Some s \<Rightarrow> if s = [] then d else s)"

definition sign_key :: "env \<Rightarrow> string" where
  "sign_key e = env_or (SIGN_KEY e) ''SU5JTElURV9UUklQTEVERVNfS0VZU1RS''"

subsection \<open>The payment page: \<open>app.get("/")\<close>\<close>

record payment_form =
  form_mid :: string
  form_oid :: string
  form_price :: string
  form_timestamp :: int
  form_mKey :: string
  form_use_chkfake :: string
  form_signature :: string
  form_verification :: string

definition payment_page :: "env \<Rightarrow> payment_form" where
  "payment_page e =
     (let mid = env_or (MERCHANT_ID e) ''INIpayTest'';
          signKey = sign_key e;
          mKey = sha256_hex e signKey;
          oid = ''INIpayTest_01234'';
          price = ''1000'';
          timestamp = now e;
          use_chkfake = ''Y'';
          signature = sha256_hex e
            (''oid='' @ oid @ ''&price='' @ price @ ''&timestamp='' @ number_to_string timestamp);
          verification = sha256_hex e
            (''oid='' @ oid @ ''&price='' @ price @ ''&signKey='' @ signKey
               @ ''&timestamp='' @ number_to_string timestamp)
      in \<lparr>form_mid = mid, form_oid = oid, form_price = price, form_timestamp = timestamp,
          form_mKey = mKey, form_use_chkfake = use_chkfake, form_signature = signature,
          form_verification = verification\<rparr>)"

subsection \<open>The return callback: \<open>app.post("/INIstdpay_pc_return.ejs")\<close>\<close>

text \<open>The \<open>options\<close> object, sent as the form of the approval and of the cancellation.\<close>

record approval_request =
  mid :: jsval
  authToken :: jsval
  timestamp :: int
  signature :: string
  verification :: string
  charset :: string
  format :: string

text \<open>The object handed to \<open>res.render('INIstdpay_pc_return.ejs', ...)\<close>.\<close>

record locals =
  resultCode :: jsval
  resultMsg :: jsval
  tid :: jsval
  MOID :: jsval
  TotPrice :: jsval
  goodName :: jsval
  applDate :: jsval
  applTime :: jsval

text \<open>
  A call of \<open>request.post\<close> with its \<open>uri\<close> and \<open>form\<close>, tagged with the place it is made
  from: the approval (line 109) or the network cancellation (line 142).
\<close>

datatype net_call =
    ApprovalPost "string option" approval_request
  | NetCancelPost "string option" approval_request

fun is_approval :: "net_call \<Rightarrow> bool" where
  "is_approval (ApprovalPost u f) = True"
| "is_approval (NetCancelPost u f) = False"

fun is_net_cancel :: "net_call \<Rightarrow> bool" where
  "is_net_cancel (ApprovalPost u f) = False"
| "is_net_cancel (NetCancelPost u f) = True"

text \<open>
  What the request library passes to the callback of a call: \<open>err\<close> (\<open>null\<close> is \<open>None\<close>),
  the status code of \<open>httpResponse\<close> when there is one, and \<open>body\<close>; and when it calls:
  \<open>reply_sync\<close> holds when the callback runs before \<open>request.post\<close> returns, as it does
  when the library refuses the call (a \<open>uri\<close> that is \<open>undefined\<close> or not a URL) and
  emits the error at once. The callback of the approval then runs inside the \<open>try\<close> of
  line 56.
\<close>

record http_reply =
  reply_err :: "js_error option"
  reply_status :: "nat option"
  reply_body :: jsval
  reply_sync :: bool

text \<open>The lines written with \<open>console.log\<close> and \<open>console.error\<close>, with the values they show.\<close>

datatype log_entry =
    LogCallbackReceived
  | LogRequestBody "(string \<times> json) list"
  | LogApprovalStart
  | LogIdcName string
  | LogAuthUrlRequest string
  | LogAuthUrlProperties string
  | LogApprovalOptions approval_request
  | LogUrlMatched
  | LogApprovalReply
  | LogApprovalError js_error
  | LogReplyStatus "nat option"
  | LogReplyBody jsval
  | LogParsedResult json
  | LogProcessingError js_exn
  | LogNetCancelUrl string
  | LogNetCancelResult "js_error + string option"
  | LogUrlMismatch
  | LogDeclined jsval
  | LogHandlerError js_exn

text \<open>
  What one run of the handler does: the console lines, the calls of \<open>request.post\<close>, and
  the page rendered with its HTTP status (\<open>None\<close> when an exception escapes the callback
  of the approval call after \<open>request.post\<close> has returned: no handler catches it, and
  nothing is rendered).
\<close>

record outcome =
  console :: "log_entry list"
  calls :: "net_call list"
  response :: "(nat \<times> locals) option"

definition after :: "log_entry list \<Rightarrow> net_call list \<Rightarrow> outcome \<Rightarrow> outcome" where
  "after log cs out = out\<lparr>console := log @ console out, calls := cs @ calls out\<rparr>"

definition msg_parse_error :: string where
  "msg_parse_error =
     [CHR 0xEC, CHR 0x9D, CHR 0x91, CHR 0xEB, CHR 0x8B, CHR 0xB5, CHR '' '',
      CHR 0xED, CHR 0x8C, CHR 0x8C, CHR 0xEC, CHR 0x8B, CHR 0xB1, CHR '' '',
      CHR 0xEC, CHR 0x98, CHR 0xA4, CHR 0xEB, CHR 0xA5, CHR 0x98]"

definition msg_approval_error :: string where
  "msg_approval_error =
     [CHR 0xEC, CHR 0x8A, CHR 0xB9, CHR 0xEC, CHR 0x9D, CHR 0xB8, CHR '' '',
      CHR 0xEC, CHR 0xB2, CHR 0x98, CHR 0xEB, CHR 0xA6, CHR 0xAC, CHR '' '',
      CHR 0xEC, CHR 0xA4, CHR 0x91, CHR '' '',
      CHR 0xEC, CHR 0x98, CHR 0xA4, CHR 0xEB, CHR 0xA5, CHR 0x98, CHR '' '',
      CHR 0xEB, CHR 0xB0, CHR 0x9C, CHR 0xEC, CHR 0x83, CHR 0x9D]"

definition msg_url_mismatch :: string where
  "msg_url_mismatch =
     ''URL '' @ [CHR 0xEB, CHR 0xA7, CHR 0xA4, CHR 0xEC, CHR 0xB9, CHR 0xAD, CHR '' '',
                 CHR 0xEC, CHR 0x8B, CHR 0xA4, CHR 0xED, CHR 0x8C, CHR 0xA8]"

definition msg_server_error :: string where
  "msg_server_error =
     [CHR 0xEC, CHR 0x84, CHR 0x9C, CHR 0xEB, CHR 0xB2, CHR 0x84, CHR '' '',
      CHR 0xEC, CHR 0xB2, CHR 0x98, CHR 0xEB, CHR 0xA6, CHR 0xAC, CHR '' '',
      CHR 0xEC, CHR 0x98, CHR 0xA4, CHR 0xEB, CHR 0xA5, CHR 0x98]"

text \<open>Lines 124 to 133: the page of a parsed approval result.\<close>

definition parsed_locals :: "(string \<times> json) list \<Rightarrow> json \<Rightarrow> locals" where
  "parsed_locals body result =
     \<lparr>resultCode = js_or (get_member result ''resultCode'') (Some (JStr ''9999'')),
      resultMsg = js_or (get_member result ''resultMsg'') (Some (JStr msg_parse_error)),
      tid = js_or (get_member result ''tid'') (Some (JStr ''N/A'')),
      MOID = js_or (get_member result ''MOID'') (get_prop body ''oid''),
      TotPrice = js_or (get_member result ''TotPrice'') (get_prop body ''price''),
      goodName = js_or (get_member result ''goodName'') (Some (JStr ''N/A'')),
      applDate = js_or (get_member result ''applDate'') (Some (JStr ''N/A'')),
      applTime = js_or (get_member result ''applTime'') (Some (JStr ''N/A''))\<rparr>"

text \<open>Lines 149 to 158: the page after a failure of the approval's processing.\<close>

definition error_locals :: "(string \<times> json) list \<Rightarrow> locals" where
  "error_locals body =
     \<lparr>resultCode = Some (JStr ''9999''),
      resultMsg = Some (JStr msg_approval_error),
      tid = Some (JStr ''N/A''),
      MOID = js_or (get_prop body ''oid'') (Some (JStr ''N/A'')),
      TotPrice = js_or (get_prop body ''price'') (Some (JStr ''N/A'')),
      goodName = Some (JStr ''N/A''),
      applDate = Some (JStr ''N/A''),
      applTime = Some (JStr ''N/A'')\<rparr>"

text \<open>Lines 163 to 172: the page of a URL mismatch.\<close>

definition mismatch_locals :: "(string \<times> json) list \<Rightarrow> locals" where
  "mismatch_locals body =
     \<lparr>resultCode = Some (JStr ''9999''),
      resultMsg = Some (JStr msg_url_mismatch),
      tid = Some (JStr ''N/A''),
      MOID = js_or (get_prop body ''oid'') (Some (JStr ''N/A'')),
      TotPrice = js_or (get_prop body ''price'') (Some (JStr ''N/A'')),
      goodName = Some (JStr ''N/A''),
      applDate = Some (JStr ''N/A''),
      applTime = Some (JStr ''N/A'')\<rparr>"

text \<open>Lines 177 to 186: the page of a payment the widget declined.\<close>

definition declined_locals :: "(string \<times> json) list \<Rightarrow> locals" where
  "declined_locals body =
     \<lparr>resultCode = get_prop body ''resultCode'',
      resultMsg = get_prop body ''resultMsg'',
      tid = get_prop body ''tid'',
      MOID = get_prop body ''MOID'',
      TotPrice = get_prop body ''TotPrice'',
      goodName = get_prop body ''goodName'',
      applDate = get_prop body ''applDate'',
      applTime = get_prop body ''applTime''\<rparr>"

text \<open>Lines 188 to 200: the outer \<open>catch\<close>, status 500.\<close>

definition server_error_locals :: locals where
  "server_error_locals =
     \<lparr>resultCode = Some (JStr ''9999''),
      resultMsg = Some (JStr msg_server_error),
      tid = Some (JStr ''N/A''),
      MOID = Some (JStr ''N/A''),
      TotPrice = Some (JStr ''N/A''),
      goodName = Some (JStr ''N/A''),
      applDate = Some (JStr ''N/A''),
      applTime = Some (JStr ''N/A'')\<rparr>"

definition server_error :: "log_entry list \<Rightarrow> js_exn \<Rightarrow> outcome" where
  "server_error log x =
     \<lparr>console = log @ [LogHandlerError x], calls = [],
      response = Some (500, server_error_locals)\<rparr>"

text \<open>
  Lines 119 and 120: \<open>JSON.parse((err) ? err : JSON.stringify(body))\<close>. \<open>JSON.parse\<close>
  converts its argument to a string first: an \<open>Error\<close> to its name and message,
  \<open>undefined\<close> to the text \<open>undefined\<close>.
\<close>

definition parse_reply :: "http_reply \<Rightarrow> js_exn + json" where
  "parse_reply reply =
     (let jsoncode =
        (case reply_err reply of
           Some err \<Rightarrow> error_to_string err
         | None \<Rightarrow>
             (case JSON_stringify (reply_body reply) of
                None \<Rightarrow> ''undefined''
              | Some text \<Rightarrow> text))
      in JSON_parse jsoncode)"

text \<open>
  Lines 134 to 159: the \<open>catch\<close> of the approval callback. The cancellation is posted
  when the callback's \<open>netCancelUrl\<close> is loosely equal to the registry's; the comparison
  itself can raise. When the callback runs before \<open>request.post\<close> has returned (\<open>sync\<close>),
  the exception reaches the \<open>catch\<close> of line 188 and the status-500 page; otherwise it
  is outside every \<open>try\<close>.
\<close>

definition net_cancel ::
  "env \<Rightarrow> (string \<times> json) list \<Rightarrow> approval_request \<Rightarrow> js_exn \<Rightarrow> bool \<Rightarrow> http_reply
     \<Rightarrow> outcome" where
  "net_cancel e body options x sync cancel_reply =
     (let netCancelUrl = get_prop body ''netCancelUrl'';
          netCancelUrl2 = getNetCancel e (get_prop body ''idc_name'');
          log = [LogProcessingError x, LogNetCancelUrl (url_to_string netCancelUrl2)]
      in case loose_eq (string_to_number e) netCancelUrl netCancelUrl2 of
           Inl x' \<Rightarrow>
             if sync then server_error log x'
             else \<lparr>console = log, calls = [], response = None\<rparr>
         | Inr eq \<Rightarrow>
             if eq then
               \<lparr>console = log @
                  [LogNetCancelResult
                     (case reply_err cancel_reply of
                        Some err \<Rightarrow> Inl err
                      | None \<Rightarrow> Inr (JSON_stringify (reply_body cancel_reply)))],
                calls = [NetCancelPost netCancelUrl2 options],
                response = Some (200, error_locals body)\<rparr>
             else \<lparr>console = log, calls = [], response = Some (200, error_locals body)\<rparr>)"

text \<open>
  Lines 109 to 160: the callback of the approval call. Reading a property of a result
  that is \<open>null\<close> raises a TypeError inside the \<open>try\<close>.
\<close>

definition approval_callback ::
  "env \<Rightarrow> (string \<times> json) list \<Rightarrow> approval_request \<Rightarrow> http_reply \<Rightarrow> http_reply \<Rightarrow> outcome"
  where
  "approval_callback e body options reply cancel_reply =
     (let log = [LogApprovalReply]
            @ (case reply_err reply of None \<Rightarrow> [] | Some err \<Rightarrow> [LogApprovalError err])
            @ [LogReplyStatus (reply_status reply), LogReplyBody (reply_body reply)]
      in case parse_reply reply of
           Inl x \<Rightarrow>
             after log [] (net_cancel e body options x (reply_sync reply) cancel_reply)
         | Inr result \<Rightarrow>
             if result = JNull then
               after (log @ [LogParsedResult result]) []
                 (net_cancel e body options TypeError (reply_sync reply) cancel_reply)
             else
               \<lparr>console = log @ [LogParsedResult result], calls = [],
                response = Some (200, parsed_locals body result)\<rparr>)"

text \<open>
  Lines 64 to 102: the \<open>options\<close> of the approval, from the string that \<open>authToken\<close>
  converts to. The signature is over \<open>authToken\<close> and \<open>timestamp\<close>, the verification over
  \<open>authToken\<close>, \<open>signKey\<close> and \<open>timestamp\<close>.
\<close>

definition approval_options :: "env \<Rightarrow> (string \<times> json) list \<Rightarrow> string \<Rightarrow> approval_request" where
  "approval_options e body authToken_s =
     (let signKey = sign_key e;
          timestamp_v = now e
      in \<lparr>mid = get_prop body ''mid'',
          authToken = get_prop body ''authToken'',
          timestamp = timestamp_v,
          signature = sha256_hex e
            (''authToken='' @ authToken_s @ ''&timestamp='' @ number_to_string timestamp_v),
          verification = sha256_hex e
            (''authToken='' @ authToken_s @ ''&signKey='' @ signKey
               @ ''&timestamp='' @ number_to_string timestamp_v),
          charset = ''UTF-8'',
          format = ''JSON''\<rparr>)"

text \<open>
  Lines 58 to 173: the branch of a callback whose \<open>resultCode\<close> is \<open>"0000"\<close>. The three
  template literals of lines 82 to 84 and the concatenation of line 87 convert
  \<open>idc_name\<close>, \<open>authUrl\<close> and \<open>authToken\<close> to strings, in this order; an exception goes to
  the outer \<open>catch\<close>. The options are built and logged before the URLs are compared.
\<close>

definition approve ::
  "env \<Rightarrow> (string \<times> json) list \<Rightarrow> http_reply \<Rightarrow> http_reply \<Rightarrow> log_entry list \<Rightarrow> outcome"
  where
  "approve e body reply cancel_reply log0 =
     (let idc_name = get_prop body ''idc_name'';
          authUrl = get_prop body ''authUrl'';
          authUrl2 = getAuthUrl e idc_name;
          log1 = log0 @ [LogApprovalStart]
      in case to_string_val idc_name of
           Inl x \<Rightarrow> server_error log1 x
         | Inr idc_s \<Rightarrow>
        (case to_string_val authUrl of
           Inl x \<Rightarrow> server_error (log1 @ [LogIdcName idc_s]) x
         | Inr authUrl_s \<Rightarrow>
        (let log2 = log1 @ [LogIdcName idc_s, LogAuthUrlRequest authUrl_s,
                            LogAuthUrlProperties (url_to_string authUrl2)]
         in case to_string_val (get_prop body ''authToken'') of
              Inl x \<Rightarrow> server_error log2 x
            | Inr authToken_s \<Rightarrow>
        (let options = approval_options e body authToken_s;
             log3 = log2 @ [LogApprovalOptions options]
         in case loose_eq (string_to_number e) authUrl authUrl2 of
              Inl x \<Rightarrow> server_error log3 x
            | Inr eq \<Rightarrow>
                if eq then
                  after (log3 @ [LogUrlMatched]) [ApprovalPost authUrl2 options]
                    (approval_callback e body options reply cancel_reply)
                else
                  \<lparr>console = log3 @ [LogUrlMismatch], calls = [],
                   response = Some (200, mismatch_locals body)\<rparr>))))"

text \<open>
  The handler. \<open>body\<close> is \<open>req.body\<close>; \<open>reply\<close> and \<open>cancel_reply\<close> are what the approval
  call and the cancellation call come back with, if they are made.
\<close>

definition return_handler ::
  "env \<Rightarrow> (string \<times> json) list \<Rightarrow> http_reply \<Rightarrow> http_reply \<Rightarrow> outcome" where
  "return_handler e body reply cancel_reply =
     (let log0 = [LogCallbackReceived, LogRequestBody body]
      in if get_prop body ''resultCode'' = Some (JStr ''0000'')
         then approve e body reply cancel_reply log0
         else
           \<lparr>console = log0 @ [LogDeclined (get_prop body ''resultCode'')], calls = [],
            response = Some (200, declined_locals body)\<rparr>)"

section \<open>The Signer of the specification\<close>

text \<open>
  The specification's \<open>digest\<close>, in its words: the hash of the string formed by joining
  \<open>name=value\<close> pairs with \<open>&\<close>, in the order the caller supplies them. The hash function
  is the first argument. The handlers above do not call it: they are compared with it.
\<close>

fun join_amp :: "string list \<Rightarrow> string" where
  "join_amp [] = []"
| "join_amp [x] = x"
| "join_amp (x # y # ys) = x @ ''&'' @ join_amp (y # ys)"

definition spec_digest :: "(string \<Rightarrow> string) \<Rightarrow> (string \<times> string) list \<Rightarrow> string" where
  "spec_digest h pairs = h (join_amp (map (\<lambda>(name, v). name @ ''='' @ v) pairs))"

text \<open>
  Whether the \<open>try\<close> block of the approval callback raises, as the properties below
  show: the reply is a transport error, or its body is \<open>undefined\<close> or \<open>null\<close>.
\<close>

definition reply_raises :: "http_reply \<Rightarrow> bool" where
  "reply_raises reply =
     (case reply_err reply of
        Some err \<Rightarrow> True
      | None \<Rightarrow> (case reply_body reply of None \<Rightarrow> True | Some v \<Rightarrow> v = JNull))"

text \<open>Whether a value converts to a string without raising.\<close>

definition converts :: "jsval \<Rightarrow> bool" where
  "converts v = (case to_string_val v of Inl x \<Rightarrow> False | Inr s \<Rightarrow> True)"

section \<open>Sample inputs\<close>

text \<open>
  An environment to run the handlers in: a registry that knows the data centre \<open>stg\<close>,
  the clock at a fixed instant, and stand-ins for the digest and the number conversion.
\<close>

definition sample_env :: env where
  "sample_env =
     \<lparr>MERCHANT_ID = None, SIGN_KEY = None, now = 1700000000000,
      sha256_hex = (\<lambda>s. s), string_to_number = (\<lambda>s. None),
      getAuthUrl = (\<lambda>idc. if idc = Some (JStr ''stg'')
                           then Some ''https://stgstdpay.inicis.com/api/payAuth'' else None),
      getNetCancel = (\<lambda>idc. if idc = Some (JStr ''stg'')
                           then Some ''https://stgstdpay.inicis.com/api/netCancel'' else None)\<rparr>"

definition no_reply :: http_reply where
  "no_reply =
     \<lparr>reply_err = None, reply_status = None, reply_body = None, reply_sync = False\<rparr>"

text \<open>A callback after a successful checkout at the data centre \<open>stg\<close>.\<close>

definition approved_body :: "(string \<times> json) list" where
  "approved_body =
     [(''resultCode'', JStr ''0000''), (''mid'', JStr ''INIpayTest''),
      (''authToken'', JStr ''tok''),
      (''authUrl'', JStr ''https://stgstdpay.inicis.com/api/payAuth''),
      (''netCancelUrl'', JStr ''https://stgstdpay.inicis.com/api/netCancel''),
      (''idc_name'', JStr ''stg''), (''oid'', JStr ''INIpayTest_01234''),
      (''price'', JStr ''1000'')]"

definition approved_options :: approval_request where
  "approved_options =
     \<lparr>mid = Some (JStr ''INIpayTest''), authToken = Some (JStr ''tok''),
      timestamp = 1700000000000,
      signature = ''authToken=tok&timestamp=1700000000000'',
      verification =
        ''authToken=tok&signKey=SU5JTElURV9UUklQTEVERVNfS0VZU1RS&timestamp=1700000000000'',
      charset = ''UTF-8'', format = ''JSON''\<rparr>"

text \<open>The same callback with \<open>authUrl\<close> as a one-element array (\<open>authUrl[]=...\<close> in a form).\<close>

definition array_url_body :: "(string \<times> json) list" where
  "array_url_body =
     [(''resultCode'', JStr ''0000''), (''mid'', JStr ''INIpayTest''),
      (''authToken'', JStr ''tok''),
      (''authUrl'', JArr [JStr ''https://stgstdpay.inicis.com/api/payAuth'']),
      (''netCancelUrl'', JStr ''https://stgstdpay.inicis.com/api/netCancel''),
      (''idc_name'', JStr ''stg''), (''oid'', JStr ''INIpayTest_01234''),
      (''price'', JStr ''1000'')]"

text \<open>A callback that claims another approval URL.\<close>

definition mismatch_body :: "(string \<times> json) list" where
  "mismatch_body =
     [(''resultCode'', JStr ''0000''), (''mid'', JStr ''INIpayTest''),
      (''authToken'', JStr ''tok''),
      (''authUrl'', JStr ''https://pay.example.com/api/payAuth''),
      (''netCancelUrl'', JStr ''https://stgstdpay.inicis.com/api/netCancel''),
      (''idc_name'', JStr ''stg''), (''oid'', JStr ''INIpayTest_01234''),
      (''price'', JStr ''1000'')]"

text \<open>
  A JSON callback whose \<open>authToken\<close> is the object \<open>{"toString": null}\<close>, with the
  registry's approval URL.
\<close>

definition object_token_body :: "(string \<times> json) list" where
  "object_token_body =
     [(''resultCode'', JStr ''0000''), (''mid'', JStr ''INIpayTest''),
      (''authToken'', JObj [(''toString'', JNull)]),
      (''authUrl'', JStr ''https://stgstdpay.inicis.com/api/payAuth''),
      (''netCancelUrl'', JStr ''https://stgstdpay.inicis.com/api/netCancel''),
      (''idc_name'', JStr ''stg''), (''oid'', JStr ''INIpayTest_01234''),
      (''price'', JStr ''1000'')]"

text \<open>A callback that names a data centre the registry does not know, and no URL.\<close>

definition unknown_idc_body :: "(string \<times> json) list" where
  "unknown_idc_body =
     [(''resultCode'', JStr ''0000''), (''mid'', JStr ''INIpayTest''),
      (''authToken'', JStr ''tok''), (''idc_name'', JStr ''zz''),
      (''oid'', JStr ''INIpayTest_01234''), (''price'', JStr ''1000'')]"

text \<open>Replies of the approval call: an approval, an empty object, \<open>null\<close>, a page that
  is not JSON (which the request library hands over as a string), a transport error, and
  the library's error for a call without \<open>uri\<close>.\<close>

definition ok_reply :: http_reply where
  "ok_reply =
     \<lparr>reply_err = None, reply_status = Some 200,
      reply_body = Some (JObj [(''resultCode'', JStr ''0000''), (''tid'', JStr ''T1''),
                               (''TotPrice'', JNum 1000)]), reply_sync = False\<rparr>"



definition html_reply :: http_reply where
  "html_reply =
     \<lparr>reply_err = None, reply_status = Some 502, reply_body = Some (JStr ''<html>''),
      reply_sync = False\<rparr>"

definition error_reply :: http_reply where
  "error_reply =
     \<lparr>reply_err = Some (JsError ''connect ECONNREFUSED''), reply_status = None,
      reply_body = None, reply_sync = False\<rparr>"

definition no_uri_reply :: http_reply where
  "no_uri_reply =
     \<lparr>reply_err = Some (JsError ''options.uri is a required argument''),
      reply_status = None, reply_body = None, reply_sync = True\<rparr>"

text \<open>The reply of a response without a body, which the library leaves \<open>undefined\<close>.\<close>

definition empty_reply :: http_reply where
  "empty_reply =
     \<lparr>reply_err = None, reply_status = Some 200, reply_body = None, reply_sync = False\<rparr>"

definition declined_body :: "(string \<times> json) list" where
  "declined_body =
     [(''resultCode'', JStr ''V801''), (''resultMsg'', JStr ''cancelled''),
      (''MOID'', JStr ''INIpayTest_01234''), (''TotPrice'', JStr ''1000'')]"

section \<open>Properties\<close>

subsection \<open>Numbers: \<open>parse_number\<close> reads what \<open>number_to_string\<close> writes\<close>

lemma lt10_cases:
  "d < 10 \<Longrightarrow> d = 0 \<or> d = 1 \<or> d = 2 \<or> d = 3 \<or> d = 4 \<or> d = 5 \<or> d = 6 \<or> d = 7 \<or> d = 8 \<or> d = (9::nat)"
  by arith

lemma is_digit_hex_char: "d < 10 \<Longrightarrow> is_digit (hex_char d)"
  using lt10_cases [of d] by (auto simp: is_digit_def hex_char_def)

lemma digit_val_hex_char: "d < 10 \<Longrightarrow> digit_val (hex_char d) = d"
  using lt10_cases [of d] by (auto simp: digit_val_def hex_char_def)

lemma hex_char_zero_iff: "d < 10 \<Longrightarrow> hex_char d = CHR ''0'' \<longleftrightarrow> d = 0"
  using lt10_cases [of d] by (auto simp: hex_char_def)

lemma nat_digits_all_digits: "list_all is_digit (nat_digits n)"
proof (induction n rule: nat_digits.induct)
  case (1 n)
  show ?case
  proof (cases "n < 10")
    case True
    then show ?thesis by (simp add: nat_digits.simps [of n] is_digit_hex_char)
  next
    case False
    with "1" show ?thesis by (simp add: nat_digits.simps [of n] is_digit_hex_char)
  qed
qed

lemma digits_val_snoc: "digits_val (ds @ [c]) = 10 * digits_val ds + digit_val c"
  by (simp add: digits_val_def)

lemma digits_val_nat_digits: "digits_val (nat_digits n) = n"
proof (induction n rule: nat_digits.induct)
  case (1 n)
  show ?case
  proof (cases "n < 10")
    case True
    then show ?thesis
      by (simp add: nat_digits.simps [of n] digits_val_def digit_val_hex_char)
  next
    case False
    with "1" show ?thesis
      by (simp add: nat_digits.simps [of n] digits_val_snoc digit_val_hex_char)
  qed
qed

lemma nat_digits_nonempty: "nat_digits n \<noteq> []"
  by (subst nat_digits.simps) simp

lemma hd_nat_digits_zero: "hd (nat_digits n) = CHR ''0'' \<longleftrightarrow> n = 0"
proof (induction n rule: nat_digits.induct)
  case (1 n)
  show ?case
  proof (cases "n < 10")
    case True
    then show ?thesis by (simp add: nat_digits.simps [of n] hex_char_zero_iff)
  next
    case False
    then have "n div 10 \<noteq> 0" by simp
    with False "1" show ?thesis
      by (simp add: nat_digits.simps [of n] nat_digits_nonempty)
  qed
qed

lemma nat_digits_zero: "nat_digits 0 = ''0''"
  by (simp add: nat_digits.simps hex_char_def)

lemma takeWhile_digits_append:
  "list_all is_digit ds \<Longrightarrow> num_follow rest \<Longrightarrow> takeWhile is_digit (ds @ rest) = ds"
  by (induction ds) (auto simp: num_follow_def split: list.splits)

lemma dropWhile_digits_append:
  "list_all is_digit ds \<Longrightarrow> num_follow rest \<Longrightarrow> dropWhile is_digit (ds @ rest) = rest"
  by (induction ds) (auto simp: num_follow_def split: list.splits)

lemma parse_fraction_follow: "num_follow rest \<Longrightarrow> parse_fraction rest = Some ([], rest)"
  by (auto simp: parse_fraction_def num_follow_def split: list.splits)

lemma parse_exponent_follow: "num_follow rest \<Longrightarrow> parse_exponent rest = Some (0, rest)"
  by (auto simp: parse_exponent_def num_follow_def split: list.splits)

lemma parse_unsigned_nat_digits:
  assumes "num_follow rest"
  shows "parse_unsigned (nat_digits n @ rest) = Some (n, rest)"
proof (cases "n = 0")
  case True
  then show ?thesis
    using assms
    by (simp add: nat_digits_zero parse_unsigned_def is_digit_def parse_fraction_follow
        parse_exponent_follow decimal_value_def digits_val_def digit_val_def)
next
  case False
  obtain d ds where ds: "nat_digits n = d # ds"
    using nat_digits_nonempty [of n] by (cases "nat_digits n") auto
  have d0: "d \<noteq> CHR ''0''"
    using hd_nat_digits_zero [of n] False ds by simp
  have dd: "is_digit d"
    using nat_digits_all_digits [of n] ds by simp
  have tw: "takeWhile is_digit (d # ds @ rest) = d # ds"
    using takeWhile_digits_append [OF nat_digits_all_digits assms, of n] ds by simp
  have dw: "dropWhile is_digit (d # ds @ rest) = rest"
    using dropWhile_digits_append [OF nat_digits_all_digits assms, of n] ds by simp
  have dv: "digits_val (d # ds) = n"
    using digits_val_nat_digits [of n] ds by simp
  have "parse_unsigned (d # ds @ rest) = Some (n, rest)"
    unfolding parse_unsigned_def
    using d0 dd assms
    by (simp only: list.case if_False if_True not_not tw dw Let_def prod.case
        parse_fraction_follow parse_exponent_follow option.case append_Nil2 dv
        list.size of_nat_0 diff_zero decimal_value_def order_refl nat_zero_as_int [symmetric])
      simp
  then show ?thesis by (simp add: ds)
qed

lemma hd_nat_digits_not_minus: "hd (nat_digits n) \<noteq> CHR ''-''"
proof -
  obtain d ds where ds: "nat_digits n = d # ds"
    using nat_digits_nonempty [of n] by (cases "nat_digits n") auto
  have "is_digit d" using nat_digits_all_digits [of n] ds by simp
  then have "d \<noteq> CHR ''-''" by (auto simp: is_digit_def)
  then show ?thesis by (simp add: ds)
qed

lemma parse_number_number_to_string:
  assumes "num_follow rest"
  shows "parse_number (number_to_string i @ rest) = Some (i, rest)"
proof (cases "i < 0")
  case True
  then show ?thesis
    by (simp add: number_to_string_def parse_number_def parse_unsigned_nat_digits [OF assms])
next
  case False
  obtain d ds where ds: "nat_digits (nat i) = d # ds"
    using nat_digits_nonempty [of "nat i"] by (cases "nat_digits (nat i)") auto
  have dm: "d \<noteq> CHR ''-''"
    using hd_nat_digits_not_minus [of "nat i"] ds by simp
  have "parse_unsigned (d # ds @ rest) = Some (nat i, rest)"
    using parse_unsigned_nat_digits [OF assms, of "nat i"] ds by simp
  with False dm show ?thesis
    by (simp add: number_to_string_def parse_number_def ds)
qed

subsection \<open>Strings: \<open>parse_string_chars\<close> reads what \<open>quote_json_string\<close> writes\<close>

lemma lt16_cases:
  "d < 16 \<Longrightarrow> d = 0 \<or> d = 1 \<or> d = 2 \<or> d = 3 \<or> d = 4 \<or> d = 5 \<or> d = 6 \<or> d = 7 \<or> d = 8 \<or> d = 9
     \<or> d = 10 \<or> d = 11 \<or> d = 12 \<or> d = 13 \<or> d = 14 \<or> d = (15::nat)"
  by arith

lemma hex_val_hex_char: "d < 16 \<Longrightarrow> hex_val (hex_char d) = Some d"
  using lt16_cases [of d] by (auto simp: hex_val_def hex_char_def)

lemma code_unit_control:
  assumes "n < 32"
  shows "code_unit (CHR ''0'') (CHR ''0'') (hex_char (n div 16)) (hex_char (n mod 16)) = Some n"
proof -
  have a: "hex_val (hex_char (n div 16)) = Some (n div 16)"
    using assms by (intro hex_val_hex_char) simp
  have b: "hex_val (hex_char (n mod 16)) = Some (n mod 16)"
    by (intro hex_val_hex_char) simp
  have z: "hex_val (CHR ''0'') = Some 0" by (simp add: hex_val_def)
  show ?thesis by (simp add: code_unit_def a b z)
qed

lemma parse_string_chars_escape:
  "parse_string_chars acc (escape_char c @ rest) = parse_string_chars (acc @ [c]) rest"
proof (cases "(of_char c :: nat) < 32 \<and> c \<noteq> CHR 0x08 \<and> c \<noteq> CHR 0x09 \<and> c \<noteq> CHR 0x0A
    \<and> c \<noteq> CHR 0x0C \<and> c \<noteq> CHR 0x0D")
  case True
  then have n: "(of_char c :: nat) < 32" by simp
  have q: "c \<noteq> dquote" "c \<noteq> bslash" using n by auto
  have e: "escape_char c = [bslash, CHR ''u'', CHR ''0'', CHR ''0'',
      hex_char (of_char c div 16), hex_char (of_char c mod 16)]"
    using True q by (simp add: escape_char_def)
  have u: "utf8_encode (of_char c) = Some [c]"
    using n by (simp add: utf8_encode_def)
  show ?thesis
    by (simp add: e code_unit_control [OF n] u)
next
  case False
  then show ?thesis
    by (auto simp: escape_char_def unescape_def)
qed

lemma parse_string_chars_escaped:
  "parse_string_chars acc (concat (map escape_char s) @ dquote # rest) = Some (acc @ s, rest)"
proof (induction s arbitrary: acc)
  case Nil
  then show ?case by simp
next
  case (Cons c s)
  have "parse_string_chars acc (concat (map escape_char (c # s)) @ dquote # rest)
      = parse_string_chars acc (escape_char c @ (concat (map escape_char s) @ dquote # rest))"
    by simp
  also have "\<dots> = parse_string_chars (acc @ [c]) (concat (map escape_char s) @ dquote # rest)"
    by (rule parse_string_chars_escape)
  also have "\<dots> = Some ((acc @ [c]) @ s, rest)"
    by (rule Cons.IH)
  finally show ?case by simp
qed

lemma parse_quoted:
  "parse_string_chars [] (tl (quote_json_string s) @ rest) = Some (s, rest)"
  using parse_string_chars_escaped [of "[]" s rest] by (simp add: quote_json_string_def)

subsection \<open>Values: \<open>JSON.parse(JSON.stringify(v))\<close> is \<open>v\<close>\<close>

lemma val_follow_num_follow: "val_follow rest \<Longrightarrow> num_follow rest"
  by (auto simp: val_follow_def num_follow_def is_digit_def split: list.splits)

lemma val_follow_skip_ws: "val_follow rest \<Longrightarrow> skip_ws rest = rest"
  by (auto simp: val_follow_def skip_ws_def is_json_ws_def split: list.splits)

lemma val_start_skip_ws: "val_start c \<Longrightarrow> skip_ws (c # cs) = c # cs"
  by (auto simp: val_start_def skip_ws_def is_json_ws_def is_digit_def)

lemma number_to_string_start:
  "\<exists>c cs. number_to_string i = c # cs \<and> (c = CHR ''-'' \<or> is_digit c)"
proof (cases "i < 0")
  case True
  then show ?thesis by (simp add: number_to_string_def)
next
  case False
  obtain d ds where ds: "nat_digits (nat i) = d # ds"
    using nat_digits_nonempty [of "nat i"] by (cases "nat_digits (nat i)") auto
  have "is_digit d" using nat_digits_all_digits [of "nat i"] ds by simp
  with False ds show ?thesis by (simp add: number_to_string_def)
qed

lemma serialize_start: "\<exists>c cs. serialize v = c # cs \<and> val_start c"
proof (cases v)
  case (JNum i)
  then show ?thesis using number_to_string_start [of i] by (auto simp: val_start_def)
next
  case (JArr xs)
  then show ?thesis by (cases xs) (auto simp: val_start_def)
next
  case (JObj fs)
  then show ?thesis by (cases fs) (auto simp: val_start_def)
qed (auto simp: val_start_def quote_json_string_def)

lemma val_start_not_close: "val_start c \<Longrightarrow> c \<noteq> CHR '']'' \<and> c \<noteq> CHR ''}''"
  by (auto simp: val_start_def is_digit_def)

lemma parse_value_number:
  assumes "val_follow rest"
  shows "parse_value (Suc n) (number_to_string i @ rest) = Some (JNum i, rest)"
proof -
  obtain c cs where c: "number_to_string i = c # cs" "c = CHR ''-'' \<or> is_digit c"
    using number_to_string_start [of i] by blast
  have vs: "val_start c" using c(2) by (auto simp: val_start_def)
  have sk: "skip_ws (c # cs @ rest) = c # cs @ rest"
    using val_start_skip_ws [OF vs] by simp
  have ne: "c \<noteq> CHR ''n''" "c \<noteq> CHR ''t''" "c \<noteq> CHR ''f''" "c \<noteq> dquote" "c \<noteq> CHR ''[''"
    "c \<noteq> CHR ''{''"
    using c(2) by (auto simp: is_digit_def)
  have pn: "parse_number (c # cs @ rest) = Some (i, rest)"
    using parse_number_number_to_string [OF val_follow_num_follow [OF assms], of i] c(1)
    by simp
  show ?thesis
    by (simp add: c(1) sk ne pn)
qed

lemma parse_value_string:
  "parse_value (Suc n) (quote_json_string s @ rest) = Some (JStr s, rest)"
proof -
  have "skip_ws (quote_json_string s @ rest) = quote_json_string s @ rest"
    by (simp add: quote_json_string_def skip_ws_def is_json_ws_def)
  moreover have "parse_string_chars [] (concat (map escape_char s) @ dquote # rest) = Some (s, rest)"
    using parse_string_chars_escaped [of "[]" s rest] by simp
  ultimately show ?thesis
    by (simp add: quote_json_string_def)
qed

lemma serialize_elems_follow: "val_follow (serialize_elems xs @ rest)"
  by (cases xs) (auto simp: val_follow_def)

lemma serialize_members_follow: "val_follow (serialize_members fs @ rest)"
  by (cases fs) (auto simp: val_follow_def)

lemma parse_elems_serialized:
  assumes "\<And>x n r. x \<in> set (x0 # xs) \<Longrightarrow> fuel_value x \<le> n \<Longrightarrow> val_follow r \<Longrightarrow>
             parse_value n (serialize x @ r) = Some (x, r)"
    and "fuel_elems (x0 # xs) \<le> n"
  shows "parse_elems n acc (serialize x0 @ serialize_elems xs @ rest)
           = Some (JArr (acc @ x0 # xs), rest)"
  using assms
proof (induction xs arbitrary: x0 acc n)
  case Nil
  then obtain m where m: "n = Suc m" "fuel_value x0 \<le> m"
    by (cases n) auto
  have "parse_value m (serialize x0 @ CHR '']'' # rest) = Some (x0, CHR '']'' # rest)"
    using Nil.prems(1) [of x0 m "CHR '']'' # rest"] m(2) by (simp add: val_follow_def)
  then show ?case
    by (simp add: m(1) skip_ws_def is_json_ws_def)
next
  case (Cons y ys)
  then obtain m where m: "n = Suc m" "fuel_value x0 \<le> m" "fuel_elems (y # ys) \<le> m"
    by (cases n) auto
  let ?r = "CHR '','' # serialize y @ serialize_elems ys @ rest"
  have pv: "parse_value m (serialize x0 @ ?r) = Some (x0, ?r)"
    using Cons.prems(1) [of x0 m ?r] m(2) by (simp add: val_follow_def)
  have ih: "parse_elems m (acc @ [x0]) (serialize y @ serialize_elems ys @ rest)
      = Some (JArr ((acc @ [x0]) @ y # ys), rest)"
  proof (rule Cons.IH)
    fix x k r
    assume "x \<in> set (y # ys)" "fuel_value x \<le> k" "val_follow r"
    then show "parse_value k (serialize x @ r) = Some (x, r)"
      using Cons.prems(1) [of x k r] by simp
  next
    show "fuel_elems (y # ys) \<le> m" by (rule m(3))
  qed
  show ?case
    using pv ih by (simp add: m(1) skip_ws_def is_json_ws_def)
qed

lemma parse_members_serialized:
  assumes "\<And>k x n r. (k, x) \<in> set ((k0, x0) # fs) \<Longrightarrow> fuel_value x \<le> n \<Longrightarrow> val_follow r \<Longrightarrow>
             parse_value n (serialize x @ r) = Some (x, r)"
    and "fuel_members ((k0, x0) # fs) \<le> n"
  shows "parse_members n acc
           (quote_json_string k0 @ CHR '':'' # serialize x0 @ serialize_members fs @ rest)
           = Some (JObj (acc @ (k0, x0) # fs), rest)"
  using assms
proof (induction fs arbitrary: k0 x0 acc n)
  case Nil
  then obtain m where m: "n = Suc m" "fuel_value x0 \<le> m"
    by (cases n) auto
  have pv: "parse_value m (serialize x0 @ CHR ''}'' # rest) = Some (x0, CHR ''}'' # rest)"
    using Nil.prems(1) [of k0 x0 m "CHR ''}'' # rest"] m(2) by (simp add: val_follow_def)
  have ps: "parse_string_chars []
        (concat (map escape_char k0) @ dquote # CHR '':'' # serialize x0 @ CHR ''}'' # rest)
      = Some (k0, CHR '':'' # serialize x0 @ CHR ''}'' # rest)"
    using parse_string_chars_escaped [of "[]" k0] by simp
  show ?case
    using pv ps by (simp add: m(1) quote_json_string_def skip_ws_def is_json_ws_def)
next
  case (Cons p ps)
  obtain k1 x1 where p: "p = (k1, x1)" by (cases p)
  from Cons.prems(2) obtain m where m: "n = Suc m" "fuel_value x0 \<le> m"
      "fuel_members ((k1, x1) # ps) \<le> m"
    by (cases n) (auto simp: p)
  let ?t = "quote_json_string k1 @ CHR '':'' # serialize x1 @ serialize_members ps @ rest"
  let ?r = "CHR '','' # ?t"
  have pv: "parse_value m (serialize x0 @ ?r) = Some (x0, ?r)"
    using Cons.prems(1) [of k0 x0 m ?r] m(2) by (simp add: val_follow_def)
  have pk: "parse_string_chars [] (concat (map escape_char k0) @ dquote # CHR '':'' # serialize x0 @ ?r)
      = Some (k0, CHR '':'' # serialize x0 @ ?r)"
    using parse_string_chars_escaped [of "[]" k0] by simp
  have ih: "parse_members m (acc @ [(k0, x0)]) ?t = Some (JObj ((acc @ [(k0, x0)]) @ (k1, x1) # ps), rest)"
  proof (rule Cons.IH)
    fix k x j r
    assume "(k, x) \<in> set ((k1, x1) # ps)" "fuel_value x \<le> j" "val_follow r"
    then show "parse_value j (serialize x @ r) = Some (x, r)"
      using Cons.prems(1) [of k x j r] by (simp add: p)
  next
    show "fuel_members ((k1, x1) # ps) \<le> m" by (rule m(3))
  qed
  show ?case
    using pv pk ih by (simp add: m(1) p quote_json_string_def skip_ws_def is_json_ws_def)
qed

lemma parse_value_serialize:
  "fuel_value v \<le> n \<Longrightarrow> val_follow rest \<Longrightarrow> parse_value n (serialize v @ rest) = Some (v, rest)"
proof (induction v arbitrary: n rest)
  case JNull
  then obtain m where "n = Suc m" by (cases n) auto
  then show ?case by (simp add: skip_ws_def is_json_ws_def)
next
  case (JBool b)
  then obtain m where "n = Suc m" by (cases n) auto
  then show ?case by (simp add: skip_ws_def is_json_ws_def)
next
  case (JNum i)
  then obtain m where "n = Suc m" by (cases n) auto
  then show ?case using parse_value_number [OF JNum.prems(2)] by simp
next
  case (JStr s)
  then obtain m where "n = Suc m" by (cases n) auto
  then show ?case using parse_value_string by simp
next
  case (JArr xs)
  then obtain m where m: "n = Suc m" "fuel_elems xs \<le> m" by (cases n) auto
  show ?case
  proof (cases xs)
    case Nil
    then show ?thesis by (simp add: m(1) skip_ws_def is_json_ws_def)
  next
    case (Cons x0 ys)
    obtain c cs where c: "serialize x0 = c # cs" "val_start c"
      using serialize_start [of x0] by blast
    have sk: "skip_ws (c # cs @ serialize_elems ys @ rest) = c # cs @ serialize_elems ys @ rest"
      using val_start_skip_ws [OF c(2)] by simp
    have nc: "c \<noteq> CHR '']''" using val_start_not_close [OF c(2)] by simp
    have pe: "parse_elems m [] (serialize x0 @ serialize_elems ys @ rest)
        = Some (JArr ([] @ x0 # ys), rest)"
    proof (rule parse_elems_serialized)
      fix x k r
      assume "x \<in> set (x0 # ys)" "fuel_value x \<le> k" "val_follow r"
      then show "parse_value k (serialize x @ r) = Some (x, r)"
        using JArr.IH [of x k r] Cons by simp
    next
      show "fuel_elems (x0 # ys) \<le> m" using m(2) Cons by simp
    qed
    have sk0: "skip_ws (CHR ''['' # c # cs @ serialize_elems ys @ rest)
        = CHR ''['' # c # cs @ serialize_elems ys @ rest"
      by (simp add: skip_ws_def is_json_ws_def)
    have "parse_value (Suc m) (CHR ''['' # c # cs @ serialize_elems ys @ rest)
        = parse_elems m [] (c # cs @ serialize_elems ys @ rest)"
      by (simp add: sk0 sk nc)
    then show ?thesis
      using pe by (simp add: Cons m(1) c(1))
  qed
next
  case (JObj fs)
  then obtain m where m: "n = Suc m" "fuel_members fs \<le> m" by (cases n) auto
  show ?case
  proof (cases fs)
    case Nil
    then show ?thesis by (simp add: m(1) skip_ws_def is_json_ws_def)
  next
    case (Cons p ps)
    obtain k0 x0 where p: "p = (k0, x0)" by (cases p)
    let ?t = "quote_json_string k0 @ CHR '':'' # serialize x0 @ serialize_members ps @ rest"
    have pm: "parse_members m [] ?t = Some (JObj ([] @ (k0, x0) # ps), rest)"
    proof (rule parse_members_serialized)
      fix k x j r
      assume a: "(k, x) \<in> set ((k0, x0) # ps)" "fuel_value x \<le> j" "val_follow r"
      then have "(k, x) \<in> set fs" by (simp add: Cons p)
      moreover have "x \<in> Basic_BNFs.snds (k, x)" by simp
      ultimately show "parse_value j (serialize x @ r) = Some (x, r)"
        using JObj.IH a(2,3) by blast
    next
      show "fuel_members ((k0, x0) # ps) \<le> m" using m(2) Cons p by simp
    qed
    have "parse_value (Suc m) (CHR ''{'' # ?t) = parse_members m [] ?t"
      by (simp add: skip_ws_def is_json_ws_def quote_json_string_def)
    then show ?thesis
      using pm by (simp add: Cons p m(1))
  qed
qed

lemma number_to_string_nonempty: "number_to_string i \<noteq> []"
  using number_to_string_start [of i] by auto

lemma fuel_le_length:
  "fuel_value v \<le> 2 * length (serialize v)"
  "fuel_elems xs \<le> 2 * length (serialize_elems xs)"
  "fuel_members fs \<le> 2 * length (serialize_members fs)"
proof (induction v and xs and fs rule: serialize_serialize_elems_serialize_members.induct)
  case (3 n)
  have "1 \<le> length (number_to_string n)"
    using number_to_string_nonempty [of n] by (cases "number_to_string n") auto
  then show ?case by simp
next
  case (4 s)
  then show ?case by (simp add: quote_json_string_def)
qed auto

lemma JSON_parse_serialize: "JSON_parse (serialize v) = Inr v"
proof -
  have "fuel_value v \<le> Suc (2 * length (serialize v))"
    using fuel_le_length(1) [of v] by simp
  then have "parse_value (Suc (2 * length (serialize v))) (serialize v @ []) = Some (v, [])"
    by (rule parse_value_serialize) (simp add: val_follow_def)
  then show ?thesis
    by (simp add: JSON_parse_def skip_ws_def)
qed

subsection \<open>Texts that are not JSON\<close>

lemma parse_value_bad_start:
  assumes "\<not> val_start c" "\<not> is_json_ws c"
  shows "parse_value n (c # cs) = None"
proof (cases n)
  case 0
  then show ?thesis by simp
next
  case (Suc m)
  have sk: "skip_ws (c # cs) = c # cs"
    using assms(2) by (simp add: skip_ws_def)
  have pn: "parse_number (c # cs) = None"
    using assms(1) by (simp add: val_start_def parse_number_def parse_unsigned_def)
  show ?thesis
    using assms(1) by (simp add: Suc sk pn val_start_def)
qed

lemma JSON_parse_bad_start:
  assumes "\<not> val_start c" "\<not> is_json_ws c"
  shows "JSON_parse (c # cs) = Inl SyntaxError"
  by (simp add: JSON_parse_def parse_value_bad_start [OF assms])

lemma JSON_parse_error: "JSON_parse (error_to_string err) = Inl SyntaxError"
proof -
  obtain m where m: "err = JsError m" by (cases err)
  have "\<exists>cs. error_to_string err = CHR ''E'' # cs"
    by (simp add: m error_to_string_def)
  then obtain cs where cs: "error_to_string err = CHR ''E'' # cs" by blast
  show ?thesis
    unfolding cs
    by (rule JSON_parse_bad_start) (simp_all add: val_start_def is_json_ws_def is_digit_def)
qed

lemma JSON_parse_undefined: "JSON_parse ''undefined'' = Inl SyntaxError"
  by (rule JSON_parse_bad_start) (simp_all add: val_start_def is_json_ws_def is_digit_def)

lemma parse_reply_cases:
  "parse_reply reply =
     (case reply_err reply of
        Some err \<Rightarrow> Inl SyntaxError
      | None \<Rightarrow> (case reply_body reply of None \<Rightarrow> Inl SyntaxError | Some v \<Rightarrow> Inr v))"
  by (simp add: parse_reply_def JSON_stringify_def JSON_parse_serialize JSON_parse_error
      JSON_parse_undefined split: option.splits)

subsection \<open>The bound on nested calls never cuts a parse short\<close>

lemma parse_string_chars_shorter:
  "parse_string_chars acc s = Some (str, r) \<Longrightarrow> length r < length s"
proof (induction acc s rule: parse_string_chars.induct)
  case (1 acc)
  then show ?case by simp
next
  case (2 acc c cs)
  show ?case
  proof (cases "c = dquote")
    case True
    with "2.prems" show ?thesis by simp
  next
    case nq: False
    show ?thesis
    proof (cases "c = bslash")
      case nb: False
      with nq "2.prems" have ge: "\<not> (of_char c :: nat) < 32"
        and p: "parse_string_chars (acc @ [c]) cs = Some (str, r)"
        by (simp_all split: if_splits)
      have "length r < length cs"
        using "2.IH"(3) [OF nq nb ge p] .
      then show ?thesis by simp
    next
      case b: True
      from "2.prems" nq b obtain e rest where cs: "cs = e # rest"
        by (cases cs) simp_all
      show ?thesis
      proof (cases "e = CHR ''u''")
        case ne: False
        from "2.prems" nq b cs ne obtain ch where
          u: "unescape e = Some ch" and p: "parse_string_chars (acc @ [ch]) rest = Some (str, r)"
          by (simp split: option.splits)
        have "length r < length rest"
          using "2.IH"(2) [OF nq b cs ne u p] .
        then show ?thesis by (simp add: cs)
      next
        case u: True
        from "2.prems" nq b cs u obtain h1 h2 h3 h4 r' where
          rest: "rest = h1 # h2 # h3 # h4 # r'"
          by (simp split: list.splits)
        from "2.prems" nq b cs u rest obtain n bs where
          cu: "code_unit h1 h2 h3 h4 = Some n" and ue: "utf8_encode n = Some bs"
          and p: "parse_string_chars (acc @ bs) r' = Some (str, r)"
          by (simp split: option.splits)
        have "length r < length r'"
          using "2.IH"(1) [OF nq b cs u _ _ _ _ cu ue p, of "h2 # h3 # h4 # r'" "h3 # h4 # r'" "h4 # r'"]
          by (simp add: rest)
        then show ?thesis by (simp add: cs rest)
      qed
    qed
  qed
qed


lemma length_skip_ws: "length (skip_ws s) \<le> length s"
  by (simp add: skip_ws_def length_dropWhile_le)

lemma skip_ws_Cons_length: "skip_ws s = c # cs \<Longrightarrow> length cs < length s"
  using length_skip_ws [of s] by simp

lemma parse_fraction_shorter: "parse_fraction r = Some (fp, r') \<Longrightarrow> length r' \<le> length r"
proof (cases r)
  case Nil
  assume "parse_fraction r = Some (fp, r')"
  with Nil show ?thesis by (simp add: parse_fraction_def)
next
  case (Cons c cs)
  assume a: "parse_fraction r = Some (fp, r')"
  show ?thesis
  proof (cases "c = CHR ''.''")
    case True
    with a Cons have "r' = dropWhile is_digit cs"
      by (simp add: parse_fraction_def split: if_splits)
    then show ?thesis
      using length_dropWhile_le [of is_digit cs] Cons by simp
  next
    case False
    with a Cons show ?thesis by (simp add: parse_fraction_def)
  qed
qed

lemma parse_exponent_shorter: "parse_exponent r = Some (ex, r') \<Longrightarrow> length r' \<le> length r"
proof (cases r)
  case Nil
  assume "parse_exponent r = Some (ex, r')"
  with Nil show ?thesis by (simp add: parse_exponent_def)
next
  case (Cons c cs)
  assume a: "parse_exponent r = Some (ex, r')"
  show ?thesis
  proof (cases "c = CHR ''e'' \<or> c = CHR ''E''")
    case False
    with a Cons show ?thesis by (simp add: parse_exponent_def)
  next
    case True
    define t where "t = (case cs of [] \<Rightarrow> cs
        | s # u \<Rightarrow> if s = CHR ''-'' then u else if s = CHR ''+'' then u else cs)"
    have lt: "length t \<le> length cs"
      by (cases cs) (simp_all add: t_def)
    have "r' = dropWhile is_digit t"
      using a Cons True
      by (cases cs) (auto simp: parse_exponent_def t_def Let_def split: if_splits)
    then show ?thesis
      using length_dropWhile_le [of is_digit t] lt Cons by simp
  qed
qed


lemma parse_unsigned_shorter:
  assumes "parse_unsigned u = Some (m, r)"
  shows "length r < length u"
proof (cases u)
  case Nil
  with assms show ?thesis by (simp add: parse_unsigned_def)
next
  case (Cons d ds)
  have dd: "is_digit d"
    using assms Cons by (simp add: parse_unsigned_def split: if_splits)
  define r1 where "r1 = (if d = CHR ''0'' then ds else dropWhile is_digit u)"
  have l1: "length r1 \<le> length ds"
    using dd Cons by (simp add: r1_def length_dropWhile_le)
  have "\<exists>fp r2 ex. parse_fraction r1 = Some (fp, r2) \<and> parse_exponent r2 = Some (ex, r)"
  proof (cases "d = CHR ''0''")
    case True
    then show ?thesis
      using assms Cons dd
      by (simp add: parse_unsigned_def r1_def split: option.splits prod.splits)
  next
    case False
    then show ?thesis
      using assms Cons dd
      by (simp add: parse_unsigned_def r1_def split: option.splits prod.splits)
  qed
  then obtain fp r2 ex where
    f: "parse_fraction r1 = Some (fp, r2)" and x: "parse_exponent r2 = Some (ex, r)"
    by blast
  have "length r \<le> length r1"
    using parse_fraction_shorter [OF f] parse_exponent_shorter [OF x] by simp
  with l1 Cons show ?thesis by simp
qed

lemma parse_number_shorter:
  assumes "parse_number s = Some (i, r)"
  shows "length r < length s"
proof (cases s)
  case Nil
  with assms show ?thesis by (simp add: parse_number_def)
next
  case (Cons c cs)
  show ?thesis
  proof (cases "c = CHR ''-''")
    case True
    with assms Cons obtain m where "parse_unsigned cs = Some (m, r)"
      by (auto simp: parse_number_def split: option.splits)
    then show ?thesis
      using parse_unsigned_shorter [of cs m r] Cons by simp
  next
    case False
    with assms Cons obtain m where "parse_unsigned (c # cs) = Some (m, r)"
      by (auto simp: parse_number_def split: option.splits)
    then show ?thesis
      using parse_unsigned_shorter [of "c # cs" m r] Cons by simp
  qed
qed


lemma parse_shorter_aux:
  "(\<forall>s v r. parse_value n s = Some (v, r) \<longrightarrow> length r < length s) \<and>
   (\<forall>acc s v r. parse_elems n acc s = Some (v, r) \<longrightarrow> length r < length s) \<and>
   (\<forall>acc s v r. parse_members n acc s = Some (v, r) \<longrightarrow> length r < length s)"
proof (induction n)
  case 0
  show ?case by simp
next
  case (Suc n)
  have ihv: "\<And>s v r. parse_value n s = Some (v, r) \<Longrightarrow> length r < length s"
    and ihe: "\<And>acc s v r. parse_elems n acc s = Some (v, r) \<Longrightarrow> length r < length s"
    and ihm: "\<And>acc s v r. parse_members n acc s = Some (v, r) \<Longrightarrow> length r < length s"
    using Suc.IH by blast+
  have v: "length r < length s" if p: "parse_value (Suc n) s = Some (v, r)" for s v r
  proof -
    from p obtain c cs where sk: "skip_ws s = c # cs"
      by (cases "skip_ws s") simp_all
    have ls: "length cs < length s" by (rule skip_ws_Cons_length [OF sk])
    have "length r \<le> length cs"
    proof (cases "c = CHR ''n'' \<or> c = CHR ''t'' \<or> c = CHR ''f''")
      case True
      with p sk show ?thesis by (auto split: if_splits)
    next
      case lit: False
      show ?thesis
      proof (cases "c = dquote")
        case True
        with p sk lit obtain str where "parse_string_chars [] cs = Some (str, r)"
          by (auto split: option.splits)
        then show ?thesis using parse_string_chars_shorter [of "[]" cs str r] by simp
      next
        case nq: False
        show ?thesis
        proof (cases "c = CHR ''[''")
          case True
          from p sk True obtain d r0 where d: "skip_ws cs = d # r0"
            by (cases "skip_ws cs") simp_all
          show ?thesis
          proof (cases "d = CHR '']''")
            case True
            with p sk \<open>c = CHR ''[''\<close> d have "r = r0" by simp
            then show ?thesis using skip_ws_Cons_length [OF d] by simp
          next
            case False
            with p sk \<open>c = CHR ''[''\<close> d have "parse_elems n [] cs = Some (v, r)" by simp
            then show ?thesis using ihe [of "[]" cs v r] by simp
          qed
        next
          case na: False
          show ?thesis
          proof (cases "c = CHR ''{''")
            case True
            from p sk True obtain d r0 where d: "skip_ws cs = d # r0"
              by (cases "skip_ws cs") simp_all
            show ?thesis
            proof (cases "d = CHR ''}''")
              case True
              with p sk \<open>c = CHR ''{''\<close> d have "r = r0" by simp
              then show ?thesis using skip_ws_Cons_length [OF d] by simp
            next
              case False
              with p sk \<open>c = CHR ''{''\<close> d have "parse_members n [] cs = Some (v, r)" by simp
              then show ?thesis using ihm [of "[]" cs v r] by simp
            qed
          next
            case no: False
            with p sk lit nq na obtain i where "parse_number (c # cs) = Some (i, r)"
              by (auto split: option.splits)
            then show ?thesis using parse_number_shorter [of "c # cs" i r] by simp
          qed
        qed
      qed
    qed
    with ls show ?thesis by simp
  qed
  have e: "length r < length s" if p: "parse_elems (Suc n) acc s = Some (v, r)" for acc s v r
  proof -
    from p obtain x r1 where x: "parse_value n s = Some (x, r1)"
      by (cases "parse_value n s") auto
    from p x obtain d r2 where d: "skip_ws r1 = d # r2"
      by (cases "skip_ws r1") simp_all
    have l: "length r2 < length s"
      using ihv [OF x] skip_ws_Cons_length [OF d] by simp
    show ?thesis
    proof (cases "d = CHR '',''")
      case True
      with p x d have "parse_elems n (acc @ [x]) r2 = Some (v, r)" by simp
      then show ?thesis using ihe [of "acc @ [x]" r2 v r] l by simp
    next
      case False
      with p x d have "r = r2" by (simp split: if_splits)
      with l show ?thesis by simp
    qed
  qed
  have m: "length r < length s" if p: "parse_members (Suc n) acc s = Some (v, r)" for acc s v r
  proof -
    from p obtain q r0 where q: "skip_ws s = q # r0"
      by (cases "skip_ws s") simp_all
    from p q have qd: "q = dquote" by (simp split: if_splits)
    from p q qd obtain k r1 where k: "parse_string_chars [] r0 = Some (k, r1)"
      by (cases "parse_string_chars [] r0") auto
    from p q qd k obtain col r2 where c: "skip_ws r1 = col # r2"
      by (cases "skip_ws r1") simp_all
    from p q qd k c have cc: "col = CHR '':''" by (simp split: if_splits)
    from p q qd k c cc obtain x r3 where x: "parse_value n r2 = Some (x, r3)"
      by (cases "parse_value n r2") auto
    from p q qd k c cc x obtain d r4 where d: "skip_ws r3 = d # r4"
      by (cases "skip_ws r3") simp_all
    have l: "length r4 < length s"
      using skip_ws_Cons_length [OF q] parse_string_chars_shorter [OF k]
        skip_ws_Cons_length [OF c] ihv [OF x] skip_ws_Cons_length [OF d]
      by simp
    show ?thesis
    proof (cases "d = CHR '',''")
      case True
      with p q qd k c cc x d have "parse_members n (acc @ [(k, x)]) r4 = Some (v, r)" by simp
      then show ?thesis using ihm [of "acc @ [(k, x)]" r4 v r] l by simp
    next
      case False
      with p q qd k c cc x d have "r = r4" by (simp split: if_splits)
      with l show ?thesis by simp
    qed
  qed
  show ?case using v e m by blast
qed

lemma parse_value_shorter: "parse_value n s = Some (v, r) \<Longrightarrow> length r < length s"
  using parse_shorter_aux [of n] by blast


lemma fuel_step_aux:
  "(\<forall>s. 2 * length s < n \<longrightarrow> parse_value (Suc n) s = parse_value n s) \<and>
   (\<forall>acc s. 2 * length s + 1 < n \<longrightarrow> parse_elems (Suc n) acc s = parse_elems n acc s) \<and>
   (\<forall>acc s. 2 * length s + 1 < n \<longrightarrow> parse_members (Suc n) acc s = parse_members n acc s)"
proof (induction n)
  case 0
  show ?case by simp
next
  case (Suc n)
  have ihv: "\<And>s. 2 * length s < n \<Longrightarrow> parse_value (Suc n) s = parse_value n s"
    and ihe: "\<And>acc s. 2 * length s + 1 < n \<Longrightarrow> parse_elems (Suc n) acc s = parse_elems n acc s"
    and ihm: "\<And>acc s. 2 * length s + 1 < n \<Longrightarrow> parse_members (Suc n) acc s = parse_members n acc s"
    using Suc.IH by blast+
  have v: "parse_value (Suc (Suc n)) s = parse_value (Suc n) s" if b: "2 * length s < Suc n" for s
  proof (cases "skip_ws s")
    case Nil
    then show ?thesis by simp
  next
    case (Cons c cs)
    have "2 * length cs + 1 < n"
      using skip_ws_Cons_length [OF Cons] b by simp
    then have he: "parse_elems (Suc n) [] cs = parse_elems n [] cs"
      and hm: "parse_members (Suc n) [] cs = parse_members n [] cs"
      using ihe [of cs "[]"] ihm [of cs "[]"] by simp_all
    show ?thesis
      by (simp only: parse_value.simps(2) Cons list.case he hm)
  qed
  have e: "parse_elems (Suc (Suc n)) acc s = parse_elems (Suc n) acc s"
    if b: "2 * length s + 1 < Suc n" for acc s
  proof -
    note ue = parse_elems.simps(2) [of "Suc n" acc s] parse_elems.simps(2) [of n acc s]
    have pv: "parse_value (Suc n) s = parse_value n s"
      using ihv [of s] b by simp
    show ?thesis
    proof (cases "parse_value n s")
      case None
      then show ?thesis by (simp only: ue pv option.case)
    next
      case (Some p)
      obtain x r1 where p: "p = (x, r1)" by (cases p)
      have l1: "length r1 < length s"
        using parse_value_shorter [of n s x r1] Some p by simp
      show ?thesis
      proof (cases "skip_ws r1")
        case Nil
        then show ?thesis
          by (simp only: ue pv Some p option.case prod.case list.case)
      next
        case (Cons d r2)
        have "2 * length r2 + 1 < n"
          using skip_ws_Cons_length [OF Cons] l1 b by simp
        then have he: "parse_elems (Suc n) (acc @ [x]) r2 = parse_elems n (acc @ [x]) r2"
          using ihe [of r2 "acc @ [x]"] by simp
        show ?thesis
          by (simp only: ue pv Some p option.case prod.case Cons list.case he)
      qed
    qed
  qed
  have m: "parse_members (Suc (Suc n)) acc s = parse_members (Suc n) acc s"
    if b: "2 * length s + 1 < Suc n" for acc s
  proof -
    note um = parse_members.simps(2) [of "Suc n" acc s] parse_members.simps(2) [of n acc s]
    show ?thesis
  proof (cases "skip_ws s")
    case Nil
    then show ?thesis by (simp only: um list.case)
  next
    case q: (Cons q r0)
    show ?thesis
    proof (cases "parse_string_chars [] r0")
      case None
      then show ?thesis by (simp only: um q list.case option.case)
    next
      case (Some kp)
      obtain k r1 where kp: "kp = (k, r1)" by (cases kp)
      have l1: "length r1 < length s"
        using parse_string_chars_shorter [of "[]" r0 k r1] Some kp skip_ws_Cons_length [OF q]
        by simp
      show ?thesis
      proof (cases "skip_ws r1")
        case Nil
        then show ?thesis
          by (simp only: um q list.case Some kp option.case prod.case)
      next
        case c: (Cons col r2)
        have l2: "length r2 + 1 < length s"
          using skip_ws_Cons_length [OF c] l1 by simp
        have pv: "parse_value (Suc n) r2 = parse_value n r2"
          using ihv [of r2] l2 b by simp
        show ?thesis
        proof (cases "parse_value n r2")
          case None
          then show ?thesis
            by (simp only: um q list.case Some kp option.case prod.case c pv)
        next
          case x: (Some xp)
          obtain x r3 where xp: "xp = (x, r3)" by (cases xp)
          have l3: "length r3 < length r2"
            using parse_value_shorter [of n r2 x r3] x xp by simp
          show ?thesis
          proof (cases "skip_ws r3")
            case Nil
            then show ?thesis
              by (simp only: um q list.case Some kp option.case prod.case c
                  pv x xp)
          next
            case d: (Cons d r4)
            have "2 * length r4 + 1 < n"
              using skip_ws_Cons_length [OF d] l3 l2 b by simp
            then have hm: "parse_members (Suc n) (acc @ [(k, x)]) r4
                = parse_members n (acc @ [(k, x)]) r4"
              using ihm [of r4 "acc @ [(k, x)]"] by simp
            show ?thesis
              by (simp only: um q list.case Some kp option.case prod.case c
                  pv x xp d hm)
          qed
        qed
      qed
    qed
  qed
  qed
  show ?case using v e m by blast
qed

lemma parse_value_more_fuel:
  "2 * length s < n \<Longrightarrow> parse_value (n + k) s = parse_value n s"
proof (induction k)
  case 0
  show ?case by simp
next
  case (Suc k)
  have "2 * length s < n + k" using Suc.prems by simp
  then have "parse_value (Suc (n + k)) s = parse_value (n + k) s"
    using fuel_step_aux [of "n + k"] by blast
  with Suc show ?case by simp
qed

text \<open>The result of the parser does not depend on the bound, once it exceeds twice the length.\<close>

lemma parse_value_fuel:
  assumes "2 * length s < n"
  shows "parse_value n s = parse_value (Suc (2 * length s)) s"
proof -
  obtain k where "n = Suc (2 * length s) + k"
    using assms less_iff_Suc_add [of "2 * length s" n] by auto
  then show ?thesis
    using parse_value_more_fuel [of s "Suc (2 * length s)" k] by simp
qed

subsection \<open>The handler, branch by branch\<close>

lemma console_after: "console (after log cs out) = log @ console out"
  by (simp add: after_def)

lemma calls_after: "calls (after log cs out) = cs @ calls out"
  by (simp add: after_def)

lemma response_after: "response (after log cs out) = response out"
  by (simp add: after_def)

lemmas after_simps = console_after calls_after response_after

lemma loose_eq_True_converts:
  "loose_eq f v u = Inr True \<Longrightarrow> \<exists>s. to_string_val v = Inr s"
  by (induction f v u rule: loose_eq.induct)
    (auto simp: to_string_val_def split: sum.splits if_splits)

lemma loose_eq_raises:
  "loose_eq f v u = Inl x \<Longrightarrow> \<exists>y. to_string_val v = Inl y"
  by (induction f v u rule: loose_eq.induct)
    (auto simp: to_string_val_def split: sum.splits if_splits)

lemma calls_net_cancel:
  "calls (net_cancel e body opts x sync cr) =
     (if loose_eq (string_to_number e) (get_prop body ''netCancelUrl'')
           (getNetCancel e (get_prop body ''idc_name'')) = Inr True
      then [NetCancelPost (getNetCancel e (get_prop body ''idc_name'')) opts] else [])"
  by (auto simp: net_cancel_def Let_def server_error_def split: sum.splits)

lemma response_net_cancel:
  "response (net_cancel e body opts x sync cr) =
     (case loose_eq (string_to_number e) (get_prop body ''netCancelUrl'')
           (getNetCancel e (get_prop body ''idc_name'')) of
        Inl y \<Rightarrow> if sync then Some (500, server_error_locals) else None
      | Inr b \<Rightarrow> Some (200, error_locals body))"
  by (auto simp: net_cancel_def Let_def server_error_def split: sum.splits)

lemma calls_approval_callback:
  "calls (approval_callback e body opts reply cr) =
     (if reply_raises reply then calls (net_cancel e body opts TypeError (reply_sync reply) cr)
      else [])"
  by (auto simp: approval_callback_def Let_def parse_reply_cases after_simps calls_net_cancel
      reply_raises_def split: option.splits sum.splits)

lemma response_approval_callback:
  "response (approval_callback e body opts reply cr) =
     (if reply_raises reply
      then response (net_cancel e body opts TypeError (reply_sync reply) cr)
      else Some (200, parsed_locals body (the (reply_body reply))))"
  by (auto simp: approval_callback_def Let_def parse_reply_cases after_simps response_net_cancel
      reply_raises_def split: option.splits sum.splits)

lemma approve_matched:
  assumes "to_string_val (get_prop body ''idc_name'') = Inr idc_s"
    and "to_string_val (get_prop body ''authToken'') = Inr tok_s"
    and "loose_eq (string_to_number e) (get_prop body ''authUrl'')
           (getAuthUrl e (get_prop body ''idc_name'')) = Inr True"
  shows "calls (approve e body reply cr log0) =
           ApprovalPost (getAuthUrl e (get_prop body ''idc_name'')) (approval_options e body tok_s)
             # calls (approval_callback e body (approval_options e body tok_s) reply cr)"
    and "response (approve e body reply cr log0) =
           response (approval_callback e body (approval_options e body tok_s) reply cr)"
proof -
  obtain url_s where u: "to_string_val (get_prop body ''authUrl'') = Inr url_s"
    using loose_eq_True_converts [OF assms(3)] by blast
  show "calls (approve e body reply cr log0) =
           ApprovalPost (getAuthUrl e (get_prop body ''idc_name'')) (approval_options e body tok_s)
             # calls (approval_callback e body (approval_options e body tok_s) reply cr)"
    by (simp add: approve_def Let_def assms u after_simps)
  show "response (approve e body reply cr log0) =
           response (approval_callback e body (approval_options e body tok_s) reply cr)"
    by (simp add: approve_def Let_def assms u after_simps)
qed

lemma approve_unmatched:
  assumes "loose_eq (string_to_number e) (get_prop body ''authUrl'')
           (getAuthUrl e (get_prop body ''idc_name'')) \<noteq> Inr True"
  shows "calls (approve e body reply cr log0) = []"
    and "response (approve e body reply cr log0) =
           (if converts (get_prop body ''idc_name'') \<and> converts (get_prop body ''authUrl'')
               \<and> converts (get_prop body ''authToken'')
            then Some (200, mismatch_locals body) else Some (500, server_error_locals))"
proof -
  show "calls (approve e body reply cr log0) = []"
    using assms
    by (auto simp: approve_def Let_def server_error_def split: sum.splits)
  show "response (approve e body reply cr log0) =
           (if converts (get_prop body ''idc_name'') \<and> converts (get_prop body ''authUrl'')
               \<and> converts (get_prop body ''authToken'')
            then Some (200, mismatch_locals body) else Some (500, server_error_locals))"
    using assms
    by (auto simp: approve_def Let_def server_error_def converts_def
        dest: loose_eq_raises split: sum.splits)
qed

lemma approve_raises:
  assumes "\<not> (converts (get_prop body ''idc_name'') \<and> converts (get_prop body ''authUrl'')
               \<and> converts (get_prop body ''authToken''))"
  shows "calls (approve e body reply cr log0) = []"
    and "response (approve e body reply cr log0) = Some (500, server_error_locals)"
  using assms
  by (auto simp: approve_def Let_def server_error_def converts_def split: sum.splits)

lemma return_handler_approve:
  "get_prop body ''resultCode'' = Some (JStr ''0000'') \<Longrightarrow>
   return_handler e body reply cr = approve e body reply cr [LogCallbackReceived, LogRequestBody body]"
  by (simp add: return_handler_def)

lemma return_handler_declined:
  "get_prop body ''resultCode'' \<noteq> Some (JStr ''0000'') \<Longrightarrow>
   calls (return_handler e body reply cr) = []"
  by (simp add: return_handler_def)

lemma converts_iff: "converts v \<longleftrightarrow> (\<exists>s. to_string_val v = Inr s)"
  by (auto simp: converts_def split: sum.splits)

text \<open>When the handler calls at all, it took the approval branch.\<close>

lemma calls_nonempty:
  assumes "calls (return_handler e body reply cr) \<noteq> []"
  shows "get_prop body ''resultCode'' = Some (JStr ''0000'')"
    and "\<exists>s. to_string_val (get_prop body ''idc_name'') = Inr s"
    and "\<exists>s. to_string_val (get_prop body ''authToken'') = Inr s"
    and "loose_eq (string_to_number e) (get_prop body ''authUrl'')
           (getAuthUrl e (get_prop body ''idc_name'')) = Inr True"
proof -
  show rc: "get_prop body ''resultCode'' = Some (JStr ''0000'')"
    using assms return_handler_declined by blast
  have c: "calls (approve e body reply cr [LogCallbackReceived, LogRequestBody body]) \<noteq> []"
    using assms by (simp add: return_handler_approve [OF rc])
  show "loose_eq (string_to_number e) (get_prop body ''authUrl'')
           (getAuthUrl e (get_prop body ''idc_name'')) = Inr True"
    using c approve_unmatched(1) by blast
  have "converts (get_prop body ''idc_name'') \<and> converts (get_prop body ''authUrl'')
               \<and> converts (get_prop body ''authToken'')"
    using c approve_raises(1) by blast
  then show "\<exists>s. to_string_val (get_prop body ''idc_name'') = Inr s"
    and "\<exists>s. to_string_val (get_prop body ''authToken'') = Inr s"
    by (simp_all add: converts_iff)
qed

lemma handler_matched:
  assumes "get_prop body ''resultCode'' = Some (JStr ''0000'')"
    and "to_string_val (get_prop body ''idc_name'') = Inr idc_s"
    and "to_string_val (get_prop body ''authToken'') = Inr tok_s"
    and "loose_eq (string_to_number e) (get_prop body ''authUrl'')
           (getAuthUrl e (get_prop body ''idc_name'')) = Inr True"
  shows "calls (return_handler e body reply cr) =
           ApprovalPost (getAuthUrl e (get_prop body ''idc_name'')) (approval_options e body tok_s)
             # (if reply_raises reply \<and>
                    loose_eq (string_to_number e) (get_prop body ''netCancelUrl'')
                      (getNetCancel e (get_prop body ''idc_name'')) = Inr True
                then [NetCancelPost (getNetCancel e (get_prop body ''idc_name''))
                        (approval_options e body tok_s)]
                else [])"
    and "response (return_handler e body reply cr) =
           (if reply_raises reply then
              (case loose_eq (string_to_number e) (get_prop body ''netCancelUrl'')
                      (getNetCancel e (get_prop body ''idc_name'')) of
                 Inl y \<Rightarrow> if reply_sync reply then Some (500, server_error_locals) else None
               | Inr b \<Rightarrow> Some (200, error_locals body))
            else Some (200, parsed_locals body (the (reply_body reply))))"
  by (simp_all add: return_handler_approve [OF assms(1)] approve_matched [OF assms(2,3,4)]
      calls_approval_callback response_approval_callback calls_net_cancel response_net_cancel)

subsection \<open>The sample callback, evaluated\<close>

lemma number_to_string_now: "number_to_string 1700000000000 = ''1700000000000''"
  by (simp add: number_to_string_def nat_digits.simps hex_char_def)

lemma approved_options_eq: "approval_options sample_env approved_body ''tok'' = approved_options"
  by (simp add: approval_options_def approved_options_def sample_env_def approved_body_def
      get_prop_def sign_key_def env_or_def number_to_string_now)

lemma approved_body_handled:
  "calls (return_handler sample_env approved_body reply cr) =
     ApprovalPost (Some ''https://stgstdpay.inicis.com/api/payAuth'') approved_options
       # (if reply_raises reply
          then [NetCancelPost (Some ''https://stgstdpay.inicis.com/api/netCancel'') approved_options]
          else [])"
  "response (return_handler sample_env approved_body reply cr) =
     (if reply_raises reply then Some (200, error_locals approved_body)
      else Some (200, parsed_locals approved_body (the (reply_body reply))))"
proof -
  have rc: "get_prop approved_body ''resultCode'' = Some (JStr ''0000'')"
    by (simp add: approved_body_def get_prop_def)
  have idc: "to_string_val (get_prop approved_body ''idc_name'') = Inr ''stg''"
    by (simp add: approved_body_def get_prop_def to_string_val_def)
  have tok: "to_string_val (get_prop approved_body ''authToken'') = Inr ''tok''"
    by (simp add: approved_body_def get_prop_def to_string_val_def)
  have eq: "loose_eq (string_to_number sample_env) (get_prop approved_body ''authUrl'')
           (getAuthUrl sample_env (get_prop approved_body ''idc_name'')) = Inr True"
    by (simp add: approved_body_def get_prop_def sample_env_def)
  have au: "getAuthUrl sample_env (get_prop approved_body ''idc_name'')
      = Some ''https://stgstdpay.inicis.com/api/payAuth''"
    by (simp add: approved_body_def get_prop_def sample_env_def)
  have nc: "getNetCancel sample_env (get_prop approved_body ''idc_name'')
      = Some ''https://stgstdpay.inicis.com/api/netCancel''"
    by (simp add: approved_body_def get_prop_def sample_env_def)
  have eq2: "loose_eq (string_to_number sample_env) (get_prop approved_body ''netCancelUrl'')
           (Some ''https://stgstdpay.inicis.com/api/netCancel'') = Inr True"
    by (simp add: approved_body_def get_prop_def)
  show "calls (return_handler sample_env approved_body reply cr) =
     ApprovalPost (Some ''https://stgstdpay.inicis.com/api/payAuth'') approved_options
       # (if reply_raises reply
          then [NetCancelPost (Some ''https://stgstdpay.inicis.com/api/netCancel'') approved_options]
          else [])"
    by (simp add: handler_matched(1) [OF rc idc tok eq] au nc eq2 approved_options_eq)
  show "response (return_handler sample_env approved_body reply cr) =
     (if reply_raises reply then Some (200, error_locals approved_body)
      else Some (200, parsed_locals approved_body (the (reply_body reply))))"
    by (simp add: handler_matched(2) [OF rc idc tok eq] au nc eq2 approved_options_eq)
qed

subsection \<open>A declined payment\<close>

text \<open>
  Claim C8. A callback whose \<open>resultCode\<close> is not the string \<open>0000\<close> leads to no call of
  \<open>request.post\<close>, and the page is rendered (status 200) from the callback's own
  \<open>resultCode\<close>, \<open>resultMsg\<close>, \<open>tid\<close>, \<open>MOID\<close>, \<open>TotPrice\<close>, \<open>goodName\<close>, \<open>applDate\<close> and
  \<open>applTime\<close>, each unchanged.
\<close>

theorem declined_passes_fields_through:
  assumes "get_prop body ''resultCode'' \<noteq> Some (JStr ''0000'')"
  shows "calls (return_handler e body reply cancel_reply) = [] \<and>
         response (return_handler e body reply cancel_reply) =
           Some (200,
             \<lparr>resultCode = get_prop body ''resultCode'',
              resultMsg = get_prop body ''resultMsg'',
              tid = get_prop body ''tid'',
              MOID = get_prop body ''MOID'',
              TotPrice = get_prop body ''TotPrice'',
              goodName = get_prop body ''goodName'',
              applDate = get_prop body ''applDate'',
              applTime = get_prop body ''applTime''\<rparr>)"
  using assms by (simp add: return_handler_def declined_locals_def)

theorem declined_passes_fields_through_witness:
  "get_prop declined_body ''resultCode'' \<noteq> Some (JStr ''0000'') \<and>
   calls (return_handler sample_env declined_body no_reply no_reply) = [] \<and>
   response (return_handler sample_env declined_body no_reply no_reply) =
     Some (200,
       \<lparr>resultCode = Some (JStr ''V801''), resultMsg = Some (JStr ''cancelled''),
        tid = None, MOID = Some (JStr ''INIpayTest_01234''),
        TotPrice = Some (JStr ''1000''), goodName = None, applDate = None,
        applTime = None\<rparr>)"
proof -
  have h: "get_prop declined_body ''resultCode'' \<noteq> Some (JStr ''0000'')"
    by (simp add: get_prop_def declined_body_def)
  show ?thesis
    using h declined_passes_fields_through [OF h, of sample_env no_reply no_reply]
    by (simp add: get_prop_def declined_body_def)
qed

subsection \<open>The reply of the approval call\<close>

lemma reply_raises_ok: "\<not> reply_raises ok_reply"
  by (simp add: reply_raises_def ok_reply_def)

text \<open>
  Claim C7. Whenever the approval call was made and its reply carries no error and a body
  whose \<open>resultCode\<close> is \<open>"0000"\<close> and whose \<open>tid\<close> is \<open>"T1"\<close>, the page is rendered with
  status 200, \<open>resultCode\<close> \<open>"0000"\<close> and \<open>tid\<close> \<open>"T1"\<close>, and no network cancellation is
  posted.
\<close>

theorem parsed_result_delivered:
  assumes "filter is_approval (calls (return_handler e body reply cancel_reply)) \<noteq> []"
    and "reply_err reply = None"
    and "reply_body reply = Some result"
    and "get_member result ''resultCode'' = Some (JStr ''0000'')"
    and "get_member result ''tid'' = Some (JStr ''T1'')"
  shows "(\<exists>page. response (return_handler e body reply cancel_reply) = Some (200, page) \<and>
            resultCode page = Some (JStr ''0000'') \<and> tid page = Some (JStr ''T1'')) \<and>
         filter is_net_cancel (calls (return_handler e body reply cancel_reply)) = []"
proof -
  have ne: "calls (return_handler e body reply cancel_reply) \<noteq> []"
    using assms(1) by auto
  obtain idc_s tok_s where
    c: "to_string_val (get_prop body ''idc_name'') = Inr idc_s"
       "to_string_val (get_prop body ''authToken'') = Inr tok_s"
    using calls_nonempty(2,3) [OF ne] by blast
  note m = handler_matched [OF calls_nonempty(1) [OF ne] c calls_nonempty(4) [OF ne]]
  have nn: "result \<noteq> JNull" using assms(4) by auto
  have nr: "\<not> reply_raises reply"
    using assms(2,3) nn by (simp add: reply_raises_def)
  have "response (return_handler e body reply cancel_reply) = Some (200, parsed_locals body result)"
    using m(2) nr assms(3) by simp
  moreover have "resultCode (parsed_locals body result) = Some (JStr ''0000'')"
    using assms(4) by (simp add: parsed_locals_def js_or_def)
  moreover have "tid (parsed_locals body result) = Some (JStr ''T1'')"
    using assms(5) by (simp add: parsed_locals_def js_or_def)
  moreover have "filter is_net_cancel (calls (return_handler e body reply cancel_reply)) = []"
    using m(1) nr by simp
  ultimately show ?thesis by simp
qed

text \<open>The sample callback with an approving reply satisfies the hypotheses of C7.\<close>

theorem parsed_result_delivered_witness:
  "filter is_approval (calls (return_handler sample_env approved_body ok_reply no_reply)) \<noteq> [] \<and>
   reply_err ok_reply = None \<and>
   reply_body ok_reply =
     Some (JObj [(''resultCode'', JStr ''0000''), (''tid'', JStr ''T1''), (''TotPrice'', JNum 1000)]) \<and>
   (\<exists>page. response (return_handler sample_env approved_body ok_reply no_reply) = Some (200, page) \<and>
      resultCode page = Some (JStr ''0000'') \<and> tid page = Some (JStr ''T1'')) \<and>
   filter is_net_cancel (calls (return_handler sample_env approved_body ok_reply no_reply)) = []"
proof -
  let ?result = "JObj [(''resultCode'', JStr ''0000''), (''tid'', JStr ''T1''), (''TotPrice'', JNum 1000)]"
  have h1: "filter is_approval (calls (return_handler sample_env approved_body ok_reply no_reply)) \<noteq> []"
    by (simp add: approved_body_handled(1))
  have h2: "reply_err ok_reply = None" by (simp add: ok_reply_def)
  have h3: "reply_body ok_reply = Some ?result" by (simp add: ok_reply_def)
  have h4: "get_member ?result ''resultCode'' = Some (JStr ''0000'')" by (simp add: get_prop_def)
  have h5: "get_member ?result ''tid'' = Some (JStr ''T1'')" by (simp add: get_prop_def)
  show ?thesis
    using h1 h2 h3 parsed_result_delivered [OF h1 h2 h3 h4 h5] by simp
qed







text \<open>
  Claim C2 says that an approval reply which cannot be parsed as JSON is followed by
  exactly one compensation call to the registry's network-cancellation URL. The code
  does not do so for a reply that is not JSON. The request library, called with
  \<open>json: true\<close>, hands the text of such a reply to the callback as a string;
  \<open>JSON.stringify\<close> followed by \<open>JSON.parse\<close> gives the string back, nothing raises,
  and the \<open>catch\<close> of line 134, which holds the cancellation, is not entered. For the
  sample callback, whose \<open>netCancelUrl\<close> is the registry's, and the reply text
  \<open><html>\<close>: that text is not JSON, the approval is the only call, and the page is the
  \<open>"9999"\<close> page of a parsed result.
\<close>

theorem html_reply_not_cancelled:
  "JSON_parse ''<html>'' = Inl SyntaxError \<and>
   reply_err html_reply = None \<and> reply_body html_reply = Some (JStr ''<html>'') \<and>
   loose_eq (string_to_number sample_env) (get_prop approved_body ''netCancelUrl'')
     (getNetCancel sample_env (get_prop approved_body ''idc_name'')) = Inr True \<and>
   calls (return_handler sample_env approved_body html_reply no_reply) =
     [ApprovalPost (Some ''https://stgstdpay.inicis.com/api/payAuth'') approved_options] \<and>
   response (return_handler sample_env approved_body html_reply no_reply) =
     Some (200,
       \<lparr>resultCode = Some (JStr ''9999''), resultMsg = Some (JStr msg_parse_error),
        tid = Some (JStr ''N/A''), MOID = Some (JStr ''INIpayTest_01234''),
        TotPrice = Some (JStr ''1000''), goodName = Some (JStr ''N/A''),
        applDate = Some (JStr ''N/A''), applTime = Some (JStr ''N/A'')\<rparr>)"
proof -
  have nj: "JSON_parse ''<html>'' = Inl SyntaxError"
    by (rule JSON_parse_bad_start) (simp_all add: val_start_def is_json_ws_def is_digit_def)
  have nr: "\<not> reply_raises html_reply"
    by (simp add: reply_raises_def html_reply_def)
  have "calls (return_handler sample_env approved_body html_reply no_reply) =
     [ApprovalPost (Some ''https://stgstdpay.inicis.com/api/payAuth'') approved_options]"
    by (simp add: approved_body_handled(1) nr)
  moreover have "response (return_handler sample_env approved_body html_reply no_reply) =
     Some (200,
       \<lparr>resultCode = Some (JStr ''9999''), resultMsg = Some (JStr msg_parse_error),
        tid = Some (JStr ''N/A''), MOID = Some (JStr ''INIpayTest_01234''),
        TotPrice = Some (JStr ''1000''), goodName = Some (JStr ''N/A''),
        applDate = Some (JStr ''N/A''), applTime = Some (JStr ''N/A'')\<rparr>)"
  proof -
    have "response (return_handler sample_env approved_body html_reply no_reply) =
        Some (200, parsed_locals approved_body (JStr ''<html>''))"
      by (simp add: approved_body_handled(2) nr) (simp add: html_reply_def)
    then show ?thesis
      by (simp add: parsed_locals_def js_or_def get_prop_def approved_body_def)
  qed
  moreover have "loose_eq (string_to_number sample_env) (get_prop approved_body ''netCancelUrl'')
     (getNetCancel sample_env (get_prop approved_body ''idc_name'')) = Inr True"
    by (simp add: approved_body_def get_prop_def sample_env_def)
  moreover have "reply_err html_reply = None \<and> reply_body html_reply = Some (JStr ''<html>'')"
    by (simp add: html_reply_def)
  ultimately show ?thesis using nj by simp
qed

text \<open>
  The same callback with a transport error, or with a response without a body, does
  reach the cancellation.
\<close>

lemma empty_reply_cancelled:
  "calls (return_handler sample_env approved_body empty_reply no_reply) =
     [ApprovalPost (Some ''https://stgstdpay.inicis.com/api/payAuth'') approved_options,
      NetCancelPost (Some ''https://stgstdpay.inicis.com/api/netCancel'') approved_options]"
  by (simp add: approved_body_handled(1) reply_raises_def empty_reply_def)

lemma error_reply_cancelled:
  "calls (return_handler sample_env approved_body error_reply no_reply) =
     [ApprovalPost (Some ''https://stgstdpay.inicis.com/api/payAuth'') approved_options,
      NetCancelPost (Some ''https://stgstdpay.inicis.com/api/netCancel'') approved_options]"
  by (simp add: approved_body_handled(1) reply_raises_def error_reply_def)

subsection \<open>The URL check\<close>

lemma sample_options:
  "approval_options sample_env array_url_body ''tok'' = approved_options"
  "approval_options sample_env mismatch_body ''tok'' = approved_options"
  "approval_options sample_env unknown_idc_body ''tok'' = approved_options"
  by (simp_all add: approval_options_def approved_options_def sample_env_def array_url_body_def
      mismatch_body_def unknown_idc_body_def get_prop_def sign_key_def env_or_def
      number_to_string_now)

text \<open>
  Claim C3, as stated, fails for an \<open>authUrl\<close> that is the one-element array of the
  registry's URL: it is not the registry's string, the comparison with \<open>==\<close> converts it
  to that string, and the approval is posted.
\<close>

theorem array_url_approved:
  "get_prop array_url_body ''resultCode'' = Some (JStr ''0000'') \<and>
   getAuthUrl sample_env (get_prop array_url_body ''idc_name'') =
     Some ''https://stgstdpay.inicis.com/api/payAuth'' \<and>
   get_prop array_url_body ''authUrl'' \<noteq> Some (JStr ''https://stgstdpay.inicis.com/api/payAuth'') \<and>
   calls (return_handler sample_env array_url_body ok_reply no_reply) =
     [ApprovalPost (Some ''https://stgstdpay.inicis.com/api/payAuth'') approved_options]"
proof -
  have rc: "get_prop array_url_body ''resultCode'' = Some (JStr ''0000'')"
    by (simp add: array_url_body_def get_prop_def)
  have idc: "to_string_val (get_prop array_url_body ''idc_name'') = Inr ''stg''"
    by (simp add: array_url_body_def get_prop_def to_string_val_def)
  have tok: "to_string_val (get_prop array_url_body ''authToken'') = Inr ''tok''"
    by (simp add: array_url_body_def get_prop_def to_string_val_def)
  have au: "getAuthUrl sample_env (get_prop array_url_body ''idc_name'')
      = Some ''https://stgstdpay.inicis.com/api/payAuth''"
    by (simp add: array_url_body_def get_prop_def sample_env_def)
  have eq: "loose_eq (string_to_number sample_env) (get_prop array_url_body ''authUrl'')
           (getAuthUrl sample_env (get_prop array_url_body ''idc_name'')) = Inr True"
    unfolding au by (simp add: array_url_body_def get_prop_def)
  have ne: "get_prop array_url_body ''authUrl''
      \<noteq> Some (JStr ''https://stgstdpay.inicis.com/api/payAuth'')"
    by (simp add: array_url_body_def get_prop_def)
  have "calls (return_handler sample_env array_url_body ok_reply no_reply) =
     [ApprovalPost (Some ''https://stgstdpay.inicis.com/api/payAuth'') approved_options]"
    by (simp add: handler_matched(1) [OF rc idc tok eq] au sample_options reply_raises_ok)
  then show ?thesis using rc au ne by simp
qed

text \<open>
  Claim C3, amended. For a callback with \<open>resultCode\<close> \<open>"0000"\<close> whose \<open>authUrl\<close> is not
  loosely equal to the registry's approval URL, the handler calls \<open>request.post\<close> nowhere
  and renders a page with \<open>resultCode\<close> \<open>"9999"\<close>: the URL-mismatch page with status 200,
  or, when converting \<open>idc_name\<close>, \<open>authUrl\<close> or \<open>authToken\<close> to a string raises, the
  server-error page with status 500.
\<close>

theorem url_mismatch_rejected:
  assumes "get_prop body ''resultCode'' = Some (JStr ''0000'')"
    and "loose_eq (string_to_number e) (get_prop body ''authUrl'')
           (getAuthUrl e (get_prop body ''idc_name'')) \<noteq> Inr True"
  shows "calls (return_handler e body reply cancel_reply) = [] \<and>
         (\<exists>page. response (return_handler e body reply cancel_reply) =
              Some (if converts (get_prop body ''idc_name'') \<and> converts (get_prop body ''authUrl'')
                       \<and> converts (get_prop body ''authToken'') then 200 else 500, page) \<and>
            resultCode page = Some (JStr ''9999'') \<and>
            resultMsg page =
              Some (JStr (if converts (get_prop body ''idc_name'')
                             \<and> converts (get_prop body ''authUrl'')
                             \<and> converts (get_prop body ''authToken'')
                          then msg_url_mismatch else msg_server_error)))"
  by (simp add: return_handler_approve [OF assms(1)] approve_unmatched [OF assms(2)]
      mismatch_locals_def server_error_locals_def)

text \<open>A callback that claims a URL of another host is rejected.\<close>

theorem url_mismatch_rejected_witness:
  "get_prop mismatch_body ''resultCode'' = Some (JStr ''0000'') \<and>
   loose_eq (string_to_number sample_env) (get_prop mismatch_body ''authUrl'')
     (getAuthUrl sample_env (get_prop mismatch_body ''idc_name'')) \<noteq> Inr True \<and>
   calls (return_handler sample_env mismatch_body ok_reply no_reply) = [] \<and>
   (\<exists>page. response (return_handler sample_env mismatch_body ok_reply no_reply) = Some (200, page) \<and>
      resultCode page = Some (JStr ''9999'') \<and> resultMsg page = Some (JStr msg_url_mismatch))"
proof -
  have h1: "get_prop mismatch_body ''resultCode'' = Some (JStr ''0000'')"
    by (simp add: mismatch_body_def get_prop_def)
  have h2: "loose_eq (string_to_number sample_env) (get_prop mismatch_body ''authUrl'')
     (getAuthUrl sample_env (get_prop mismatch_body ''idc_name'')) \<noteq> Inr True"
    by (simp add: mismatch_body_def get_prop_def sample_env_def)
  have c: "converts (get_prop mismatch_body ''idc_name'') \<and>
      converts (get_prop mismatch_body ''authUrl'') \<and> converts (get_prop mismatch_body ''authToken'')"
    by (simp add: mismatch_body_def get_prop_def converts_def to_string_val_def)
  show ?thesis
    using h1 h2 c url_mismatch_rejected [OF h1 h2, of ok_reply no_reply] by simp
qed

subsection \<open>The approval request\<close>

lemma loose_eq_same: "v = map_option JStr u \<Longrightarrow> loose_eq f v u = Inr True"
  by (cases u) auto

text \<open>
  Claim C4, as stated, fails for a JSON callback whose \<open>authToken\<close> is an object with an
  own \<open>toString\<close> property: \<open>authUrl\<close> is the registry's URL, the concatenation of line 87
  raises a TypeError, and the outer \<open>catch\<close> renders the server-error page. No approval is
  posted.
\<close>

theorem object_token_not_approved:
  "get_prop object_token_body ''resultCode'' = Some (JStr ''0000'') \<and>
   get_prop object_token_body ''authUrl'' =
     map_option JStr (getAuthUrl sample_env (get_prop object_token_body ''idc_name'')) \<and>
   calls (return_handler sample_env object_token_body ok_reply no_reply) = [] \<and>
   response (return_handler sample_env object_token_body ok_reply no_reply) =
     Some (500, server_error_locals)"
proof -
  have rc: "get_prop object_token_body ''resultCode'' = Some (JStr ''0000'')"
    by (simp add: object_token_body_def get_prop_def)
  have au: "get_prop object_token_body ''authUrl'' =
     map_option JStr (getAuthUrl sample_env (get_prop object_token_body ''idc_name''))"
    by (simp add: object_token_body_def get_prop_def sample_env_def)
  have nc: "\<not> (converts (get_prop object_token_body ''idc_name'') \<and>
      converts (get_prop object_token_body ''authUrl'') \<and>
      converts (get_prop object_token_body ''authToken''))"
    by (simp add: object_token_body_def get_prop_def converts_def to_string_val_def)
  show ?thesis
    using rc au
    by (simp add: return_handler_approve [OF rc] approve_raises [OF nc])
qed

text \<open>
  Claim C4, amended. For a callback with \<open>resultCode\<close> \<open>"0000"\<close> whose \<open>authUrl\<close> is the
  registry's value for its \<open>idc_name\<close> and whose \<open>idc_name\<close> and \<open>authToken\<close> convert to
  strings, the handler posts exactly one approval; its destination is the registry's
  approval URL; its form carries the clock's reading as \<open>timestamp\<close>, the digest of
  \<open>authToken\<close> and \<open>timestamp\<close> as \<open>signature\<close>, and the digest of \<open>authToken\<close>, \<open>signKey\<close>
  and \<open>timestamp\<close> as \<open>verification\<close>, each digest as the specification's Signer defines it.
\<close>

theorem approval_posted_to_registry_url:
  assumes "get_prop body ''resultCode'' = Some (JStr ''0000'')"
    and "get_prop body ''authUrl'' = map_option JStr (getAuthUrl e (get_prop body ''idc_name''))"
    and "to_string_val (get_prop body ''idc_name'') = Inr idc_s"
    and "to_string_val (get_prop body ''authToken'') = Inr authToken_s"
  shows "\<exists>req. filter is_approval (calls (return_handler e body reply cancel_reply)) =
             [ApprovalPost (getAuthUrl e (get_prop body ''idc_name'')) req] \<and>
           timestamp req = now e \<and>
           signature req = spec_digest (sha256_hex e)
             [(''authToken'', authToken_s), (''timestamp'', number_to_string (now e))] \<and>
           verification req = spec_digest (sha256_hex e)
             [(''authToken'', authToken_s), (''signKey'', sign_key e),
              (''timestamp'', number_to_string (now e))]"
proof -
  have eq: "loose_eq (string_to_number e) (get_prop body ''authUrl'')
           (getAuthUrl e (get_prop body ''idc_name'')) = Inr True"
    by (rule loose_eq_same [OF assms(2)])
  have "filter is_approval (calls (return_handler e body reply cancel_reply)) =
      [ApprovalPost (getAuthUrl e (get_prop body ''idc_name'')) (approval_options e body authToken_s)]"
    by (simp add: handler_matched(1) [OF assms(1,3,4) eq])
  moreover have "timestamp (approval_options e body authToken_s) = now e"
    by (simp add: approval_options_def Let_def)
  moreover have "signature (approval_options e body authToken_s) = spec_digest (sha256_hex e)
             [(''authToken'', authToken_s), (''timestamp'', number_to_string (now e))]"
    by (simp add: approval_options_def spec_digest_def Let_def)
  moreover have "verification (approval_options e body authToken_s) = spec_digest (sha256_hex e)
             [(''authToken'', authToken_s), (''signKey'', sign_key e),
              (''timestamp'', number_to_string (now e))]"
    by (simp add: approval_options_def spec_digest_def Let_def)
  ultimately show ?thesis by blast
qed

text \<open>The sample callback, with the digest's input left readable.\<close>

theorem approval_posted_to_registry_url_witness:
  "get_prop approved_body ''resultCode'' = Some (JStr ''0000'') \<and>
   get_prop approved_body ''authUrl'' =
     map_option JStr (getAuthUrl sample_env (get_prop approved_body ''idc_name'')) \<and>
   to_string_val (get_prop approved_body ''idc_name'') = Inr ''stg'' \<and>
   to_string_val (get_prop approved_body ''authToken'') = Inr ''tok'' \<and>
   (\<exists>req. filter is_approval (calls (return_handler sample_env approved_body ok_reply no_reply)) =
        [ApprovalPost (Some ''https://stgstdpay.inicis.com/api/payAuth'') req] \<and>
      timestamp req = 1700000000000 \<and>
      signature req = ''authToken=tok&timestamp=1700000000000'' \<and>
      verification req =
        ''authToken=tok&signKey=SU5JTElURV9UUklQTEVERVNfS0VZU1RS&timestamp=1700000000000'')"
proof -
  have h1: "get_prop approved_body ''resultCode'' = Some (JStr ''0000'')"
    by (simp add: approved_body_def get_prop_def)
  have h2: "get_prop approved_body ''authUrl'' =
     map_option JStr (getAuthUrl sample_env (get_prop approved_body ''idc_name''))"
    by (simp add: approved_body_def get_prop_def sample_env_def)
  have h3: "to_string_val (get_prop approved_body ''idc_name'') = Inr ''stg''"
    by (simp add: approved_body_def get_prop_def to_string_val_def)
  have h4: "to_string_val (get_prop approved_body ''authToken'') = Inr ''tok''"
    by (simp add: approved_body_def get_prop_def to_string_val_def)
  have au: "getAuthUrl sample_env (get_prop approved_body ''idc_name'')
      = Some ''https://stgstdpay.inicis.com/api/payAuth''"
    by (simp add: approved_body_def get_prop_def sample_env_def)
  have nw: "now sample_env = 1700000000000" "sha256_hex sample_env = (\<lambda>s. s)"
    "sign_key sample_env = ''SU5JTElURV9UUklQTEVERVNfS0VZU1RS''"
    by (simp_all add: sample_env_def sign_key_def env_or_def)
  show ?thesis
    using h1 h2 h3 h4
      approval_posted_to_registry_url [OF h1 h2 h3 h4, of ok_reply no_reply]
    by (simp add: au nw spec_digest_def number_to_string_now)
qed

text \<open>
  The console of the approval branch, up to the line that the URL check writes: the
  request is logged (line 104) before the check of line 106 writes its line (line 107
  or line 162).
\<close>

lemma console_approve:
  assumes "to_string_val (get_prop body ''idc_name'') = Inr idc_s"
    and "to_string_val (get_prop body ''authUrl'') = Inr authUrl_s"
    and "to_string_val (get_prop body ''authToken'') = Inr authToken_s"
  shows "take (length log0 + 6) (console (approve e body reply cr log0)) =
           log0 @
           [LogApprovalStart, LogIdcName idc_s, LogAuthUrlRequest authUrl_s,
            LogAuthUrlProperties (url_to_string (getAuthUrl e (get_prop body ''idc_name''))),
            LogApprovalOptions (approval_options e body authToken_s),
            if loose_eq (string_to_number e) (get_prop body ''authUrl'')
                 (getAuthUrl e (get_prop body ''idc_name'')) = Inr True
            then LogUrlMatched else LogUrlMismatch]"
  using assms
  by (auto simp: approve_def Let_def server_error_def after_simps
      dest: loose_eq_raises split: sum.splits)

lemma mismatch_options:
  "approval_options sample_env mismatch_body ''tok'' = approved_options"
  by (simp add: approval_options_def approved_options_def sample_env_def mismatch_body_def
      get_prop_def sign_key_def env_or_def number_to_string_now)

text \<open>
  Claim C5, as stated, fails: for a callback that the URL check rejects, the timestamp,
  signature and verification have been computed and the request is on the console
  (line 104) before the line of the failed check (line 162). The console of the
  rejected sample callback, in full:
\<close>

theorem request_built_for_rejected_callback:
  "console (return_handler sample_env mismatch_body no_reply no_reply) =
     [LogCallbackReceived, LogRequestBody mismatch_body, LogApprovalStart, LogIdcName ''stg'',
      LogAuthUrlRequest ''https://pay.example.com/api/payAuth'',
      LogAuthUrlProperties ''https://stgstdpay.inicis.com/api/payAuth'',
      LogApprovalOptions approved_options, LogUrlMismatch] \<and>
   timestamp approved_options = 1700000000000 \<and>
   signature approved_options = ''authToken=tok&timestamp=1700000000000'' \<and>
   verification approved_options =
     ''authToken=tok&signKey=SU5JTElURV9UUklQTEVERVNfS0VZU1RS&timestamp=1700000000000'' \<and>
   calls (return_handler sample_env mismatch_body no_reply no_reply) = [] \<and>
   response (return_handler sample_env mismatch_body no_reply no_reply) =
     Some (200, mismatch_locals mismatch_body)"
proof -
  have h1: "get_prop mismatch_body ''resultCode'' = Some (JStr ''0000'')"
    by (simp add: mismatch_body_def get_prop_def)
  have h2: "loose_eq (string_to_number sample_env) (get_prop mismatch_body ''authUrl'')
     (getAuthUrl sample_env (get_prop mismatch_body ''idc_name'')) = Inr False"
    by (simp add: mismatch_body_def get_prop_def sample_env_def)
  have c1: "to_string_val (get_prop mismatch_body ''idc_name'') = Inr ''stg''"
    by (simp add: mismatch_body_def get_prop_def to_string_val_def)
  have c2: "to_string_val (get_prop mismatch_body ''authUrl'')
      = Inr ''https://pay.example.com/api/payAuth''"
    by (simp add: mismatch_body_def get_prop_def to_string_val_def)
  have c3: "to_string_val (get_prop mismatch_body ''authToken'') = Inr ''tok''"
    by (simp add: mismatch_body_def get_prop_def to_string_val_def)
  have au: "url_to_string (getAuthUrl sample_env (get_prop mismatch_body ''idc_name''))
      = ''https://stgstdpay.inicis.com/api/payAuth''"
    by (simp add: mismatch_body_def get_prop_def sample_env_def url_to_string_def)
  have "console (approve sample_env mismatch_body no_reply no_reply
          [LogCallbackReceived, LogRequestBody mismatch_body]) =
     [LogCallbackReceived, LogRequestBody mismatch_body, LogApprovalStart, LogIdcName ''stg'',
      LogAuthUrlRequest ''https://pay.example.com/api/payAuth'',
      LogAuthUrlProperties ''https://stgstdpay.inicis.com/api/payAuth'',
      LogApprovalOptions approved_options, LogUrlMismatch]"
    by (simp add: approve_def Let_def c1 c2 c3 h2 au mismatch_options)
  moreover have "calls (return_handler sample_env mismatch_body no_reply no_reply) = []"
    by (simp add: return_handler_approve [OF h1] approve_unmatched(1) h2)
  moreover have "response (return_handler sample_env mismatch_body no_reply no_reply) =
     Some (200, mismatch_locals mismatch_body)"
    by (simp add: return_handler_approve [OF h1] approve_unmatched(2) h2 converts_def c1 c2 c3)
  ultimately show ?thesis
    by (simp add: return_handler_approve [OF h1] approved_options_def)
qed

text \<open>
  Claim C5, amended. For a callback with \<open>resultCode\<close> \<open>"0000"\<close> whose \<open>idc_name\<close>, \<open>authUrl\<close>
  and \<open>authToken\<close> convert to strings, the approval request is built and logged before
  the URL check, whether or not the check accepts the callback: the first eight lines
  of the console end with the request (line 104) followed by the line of the check's
  outcome (line 107 or line 162). The request is sent, as the form of the one approval
  call, when \<open>authUrl\<close> is loosely equal to the registry's approval URL, and no call is
  made otherwise.
\<close>

theorem request_built_before_check:
  assumes "get_prop body ''resultCode'' = Some (JStr ''0000'')"
    and "to_string_val (get_prop body ''idc_name'') = Inr idc_s"
    and "to_string_val (get_prop body ''authUrl'') = Inr authUrl_s"
    and "to_string_val (get_prop body ''authToken'') = Inr authToken_s"
  shows "take 8 (console (return_handler e body reply cancel_reply)) =
           [LogCallbackReceived, LogRequestBody body, LogApprovalStart, LogIdcName idc_s,
            LogAuthUrlRequest authUrl_s,
            LogAuthUrlProperties (url_to_string (getAuthUrl e (get_prop body ''idc_name''))),
            LogApprovalOptions (approval_options e body authToken_s),
            if loose_eq (string_to_number e) (get_prop body ''authUrl'')
                 (getAuthUrl e (get_prop body ''idc_name'')) = Inr True
            then LogUrlMatched else LogUrlMismatch] \<and>
         (if loose_eq (string_to_number e) (get_prop body ''authUrl'')
               (getAuthUrl e (get_prop body ''idc_name'')) = Inr True
          then filter is_approval (calls (return_handler e body reply cancel_reply)) =
                 [ApprovalPost (getAuthUrl e (get_prop body ''idc_name''))
                    (approval_options e body authToken_s)]
          else calls (return_handler e body reply cancel_reply) = [])"
proof -
  have "take 8 (console (return_handler e body reply cancel_reply)) =
           [LogCallbackReceived, LogRequestBody body, LogApprovalStart, LogIdcName idc_s,
            LogAuthUrlRequest authUrl_s,
            LogAuthUrlProperties (url_to_string (getAuthUrl e (get_prop body ''idc_name''))),
            LogApprovalOptions (approval_options e body authToken_s),
            if loose_eq (string_to_number e) (get_prop body ''authUrl'')
                 (getAuthUrl e (get_prop body ''idc_name'')) = Inr True
            then LogUrlMatched else LogUrlMismatch]"
    using console_approve [OF assms(2,3,4), of "[LogCallbackReceived, LogRequestBody body]"]
    by (simp add: return_handler_approve [OF assms(1)])
  moreover have "filter is_approval (calls (return_handler e body reply cancel_reply)) =
                 [ApprovalPost (getAuthUrl e (get_prop body ''idc_name''))
                    (approval_options e body authToken_s)]"
    if "loose_eq (string_to_number e) (get_prop body ''authUrl'')
               (getAuthUrl e (get_prop body ''idc_name'')) = Inr True"
    by (simp add: handler_matched(1) [OF assms(1,2,4) that])
  moreover have "calls (return_handler e body reply cancel_reply) = []"
    if "loose_eq (string_to_number e) (get_prop body ''authUrl'')
               (getAuthUrl e (get_prop body ''idc_name'')) \<noteq> Inr True"
    by (simp add: return_handler_approve [OF assms(1)] approve_unmatched(1) [OF that])
  ultimately show ?thesis by simp
qed

text \<open>
  The accepted sample callback: the request is logged, then the line of the match, and
  the request is the form of the approval call.
\<close>

theorem request_built_before_check_witness:
  "get_prop approved_body ''resultCode'' = Some (JStr ''0000'') \<and>
   to_string_val (get_prop approved_body ''idc_name'') = Inr ''stg'' \<and>
   to_string_val (get_prop approved_body ''authUrl'')
     = Inr ''https://stgstdpay.inicis.com/api/payAuth'' \<and>
   to_string_val (get_prop approved_body ''authToken'') = Inr ''tok'' \<and>
   loose_eq (string_to_number sample_env) (get_prop approved_body ''authUrl'')
     (getAuthUrl sample_env (get_prop approved_body ''idc_name'')) = Inr True \<and>
   take 8 (console (return_handler sample_env approved_body ok_reply no_reply)) =
     [LogCallbackReceived, LogRequestBody approved_body, LogApprovalStart, LogIdcName ''stg'',
      LogAuthUrlRequest ''https://stgstdpay.inicis.com/api/payAuth'',
      LogAuthUrlProperties ''https://stgstdpay.inicis.com/api/payAuth'',
      LogApprovalOptions approved_options, LogUrlMatched] \<and>
   filter is_approval (calls (return_handler sample_env approved_body ok_reply no_reply)) =
     [ApprovalPost (Some ''https://stgstdpay.inicis.com/api/payAuth'') approved_options]"
proof -
  have h1: "get_prop approved_body ''resultCode'' = Some (JStr ''0000'')"
    by (simp add: approved_body_def get_prop_def)
  have c1: "to_string_val (get_prop approved_body ''idc_name'') = Inr ''stg''"
    by (simp add: approved_body_def get_prop_def to_string_val_def)
  have c2: "to_string_val (get_prop approved_body ''authUrl'')
      = Inr ''https://stgstdpay.inicis.com/api/payAuth''"
    by (simp add: approved_body_def get_prop_def to_string_val_def)
  have c3: "to_string_val (get_prop approved_body ''authToken'') = Inr ''tok''"
    by (simp add: approved_body_def get_prop_def to_string_val_def)
  have au: "getAuthUrl sample_env (get_prop approved_body ''idc_name'')
      = Some ''https://stgstdpay.inicis.com/api/payAuth''"
    by (simp add: approved_body_def get_prop_def sample_env_def)
  have eq: "loose_eq (string_to_number sample_env) (get_prop approved_body ''authUrl'')
     (getAuthUrl sample_env (get_prop approved_body ''idc_name'')) = Inr True"
    unfolding au by (simp add: approved_body_def get_prop_def)
  show ?thesis
    using h1 c1 c2 c3 eq
      request_built_before_check [OF h1 c1 c2 c3, of sample_env ok_reply no_reply]
    by (simp add: au approved_options_eq url_to_string_def)
qed

subsection \<open>A data centre the registry does not know\<close>

text \<open>
  Claim C6 at a callback without \<open>authUrl\<close> for an unknown data centre. The registry
  returns \<open>undefined\<close>, \<open>undefined == undefined\<close> holds, and the handler takes the branch of
  a matching URL instead of the branch of a mismatch: it calls \<open>request.post\<close> without a
  \<open>uri\<close>, which the library refuses with an error, and the \<open>catch\<close> calls \<open>request.post\<close>
  again for the cancellation, whose URL is \<open>undefined\<close> as well. The page is the one of a
  failed approval, not the one of a URL mismatch.
\<close>

theorem unknown_idc_approval_attempted:
  "getAuthUrl sample_env (get_prop unknown_idc_body ''idc_name'') = None \<and>
   get_prop unknown_idc_body ''authUrl'' = None \<and>
   calls (return_handler sample_env unknown_idc_body no_uri_reply no_uri_reply) =
     [ApprovalPost None approved_options, NetCancelPost None approved_options] \<and>
   response (return_handler sample_env unknown_idc_body no_uri_reply no_uri_reply) =
     Some (200, error_locals unknown_idc_body)"
proof -
  have rc: "get_prop unknown_idc_body ''resultCode'' = Some (JStr ''0000'')"
    by (simp add: unknown_idc_body_def get_prop_def)
  have idc: "to_string_val (get_prop unknown_idc_body ''idc_name'') = Inr ''zz''"
    by (simp add: unknown_idc_body_def get_prop_def to_string_val_def)
  have tok: "to_string_val (get_prop unknown_idc_body ''authToken'') = Inr ''tok''"
    by (simp add: unknown_idc_body_def get_prop_def to_string_val_def)
  have au: "getAuthUrl sample_env (get_prop unknown_idc_body ''idc_name'') = None"
    by (simp add: unknown_idc_body_def get_prop_def sample_env_def)
  have nc: "getNetCancel sample_env (get_prop unknown_idc_body ''idc_name'') = None"
    by (simp add: unknown_idc_body_def get_prop_def sample_env_def)
  have u: "get_prop unknown_idc_body ''authUrl'' = None"
    "get_prop unknown_idc_body ''netCancelUrl'' = None"
    by (simp_all add: unknown_idc_body_def get_prop_def)
  have eq: "loose_eq (string_to_number sample_env) (get_prop unknown_idc_body ''authUrl'')
           (getAuthUrl sample_env (get_prop unknown_idc_body ''idc_name'')) = Inr True"
    by (simp add: au u)
  have r: "reply_raises no_uri_reply"
    by (simp add: reply_raises_def no_uri_reply_def)
  show ?thesis
    using au u(1)
    by (simp add: handler_matched [OF rc idc tok eq] nc u(2) r sample_options)
qed

text \<open>
  With an \<open>authUrl\<close> in the callback, the same check does reject the unknown data centre.
\<close>

lemma unknown_idc_with_url_rejected:
  assumes "get_prop body ''resultCode'' = Some (JStr ''0000'')"
    and "getAuthUrl e (get_prop body ''idc_name'') = None"
    and "get_prop body ''authUrl'' = Some v" and "v \<noteq> JNull"
  shows "calls (return_handler e body reply cancel_reply) = []"
proof -
  have "loose_eq (string_to_number e) (get_prop body ''authUrl'')
      (getAuthUrl e (get_prop body ''idc_name'')) = Inr False"
    using assms(2,3,4) by (cases v) simp_all
  then have "loose_eq (string_to_number e) (get_prop body ''authUrl'')
      (getAuthUrl e (get_prop body ''idc_name'')) \<noteq> Inr True"
    by simp
  then show ?thesis
    by (simp add: return_handler_approve [OF assms(1)] approve_unmatched(1))
qed

end
